theory Spec2Isabelle
  imports Complex_Main
begin

section \<open>The graph substrate\<close>

text \<open>
  The rewriting passes work on a traced \<^verbatim>\<open>fx.GraphModule\<close>. Node objects are
  addressed by identity; here an identity is a natural number and the graph keeps a store
  from identities to the attributes of the node object. \<^verbatim>\<open>g.graph.nodes\<close> is the
  ordered list of the identities that are in the graph. Submodules are looked up by the
  qualified name a call node carries as its target.
\<close>

type_synonym nid = nat

text \<open>
  A tensor has a shape, the list of its sizes along each dimension, and its entries in
  row-major order; a well-formed tensor has as many entries as the product of its sizes.
  Entries are real numbers: the not-a-number value of floating point, which differs from
  itself, is outside this model (the step sizes of a tunnel are strictly positive).
  \<open>vec\<close> is the one-dimensional tensor of the given entries: a scalar step size has
  one entry, a per-channel step size one entry for each channel.
\<close>

record tensor =
  shape :: "nat list"
  elems :: "real list"

definition vec :: "real list \<Rightarrow> tensor" where
  "vec xs = \<lparr>shape = [length xs], elems = xs\<rparr>"

text \<open>
  Modelled from the spec: the opcode classification of the graph substrate
  (\<^verbatim>\<open>FXOpcodeClasses\<close>, \<^verbatim>\<open>FXOPCODE_CALL_MODULE\<close>), whose declaration is not
  among the sources. Each class is the set of opcodes it names.
\<close>

datatype opcode = Placeholder | GetAttr | CallFunction | CallMethod | CallModule | Output

definition PLACEHOLDER :: "opcode set" where
  "PLACEHOLDER = {Placeholder}"

definition OUTPUT :: "opcode set" where
  "OUTPUT = {Output}"

definition CALL_MODULE :: "opcode set" where
  "CALL_MODULE = {CallModule}"

definition FXOPCODE_CALL_MODULE :: "opcode set" where
  "FXOPCODE_CALL_MODULE = {CallModule}"

text \<open>
  Modelled from the spec: the scale-tracking module \<^verbatim>\<open>EpsTunnel\<close> with its two
  tensors \<^verbatim>\<open>eps_in\<close> and \<^verbatim>\<open>eps_out\<close>; its class is not among the sources.
  Every other module class is \<open>OtherModule\<close>.
\<close>

datatype module = EpsTunnel tensor tensor | OtherModule string

fun is_EpsTunnel :: "module \<Rightarrow> bool" where
  "is_EpsTunnel (EpsTunnel ei eo) = True"
| "is_EpsTunnel (OtherModule c) = False"

record node =
  op :: opcode
  target :: string
  args :: "nid list"

record graph =
  nodes :: "nid list"
  attrs :: "nid \<Rightarrow> node"
  modules :: "string \<rightharpoonup> module"

text \<open>
  \<^verbatim>\<open>n.all_input_nodes\<close>: the nodes that occur in the arguments of \<open>n\<close>, each once.
  \<^verbatim>\<open>n.users\<close>: the nodes of the graph that have \<open>n\<close> among their arguments, each
  once (the keys of a dictionary). The substrate keeps both in step with the arguments.
\<close>

definition all_input_nodes :: "graph \<Rightarrow> nid \<Rightarrow> nid list" where
  "all_input_nodes g n = remdups (args (attrs g n))"

definition users :: "graph \<Rightarrow> nid \<Rightarrow> nid list" where
  "users g n = remdups (filter (\<lambda>u. n \<in> set (args (attrs g u))) (nodes g))"

section \<open>Exceptions and mutation\<close>

text \<open>
  A Python call either returns a value or raises, and it may have mutated the graph by
  then. A computation maps the graph before the call to its outcome and the graph after.
\<close>

datatype error = AssertionError string | AttributeError | RuntimeError | IndexError

type_synonym 'a fx = "graph \<Rightarrow> (error + 'a) \<times> graph"

definition ret :: "'a \<Rightarrow> 'a fx" where
  "ret x = (\<lambda>g. (Inr x, g))"

definition throw :: "error \<Rightarrow> 'a fx" where
  "throw e = (\<lambda>g. (Inl e, g))"

definition bnd :: "'a fx \<Rightarrow> ('a \<Rightarrow> 'b fx) \<Rightarrow> 'b fx" where
  "bnd m f = (\<lambda>g. case m g of (Inl e, g') \<Rightarrow> (Inl e, g') | (Inr x, g') \<Rightarrow> f x g')"

definition gets :: "(graph \<Rightarrow> 'a) \<Rightarrow> 'a fx" where
  "gets f = (\<lambda>g. (Inr (f g), g))"

definition modify :: "(graph \<Rightarrow> graph) \<Rightarrow> unit fx" where
  "modify f = (\<lambda>g. (Inr (), f g))"

definition py_assert :: "bool \<Rightarrow> unit fx" where
  "py_assert b = (if b then ret () else throw (AssertionError []))"

text \<open>\<^verbatim>\<open>filter\<close> with a predicate that may raise, and \<^verbatim>\<open>map\<close> likewise.\<close>

fun filterM :: "('a \<Rightarrow> bool fx) \<Rightarrow> 'a list \<Rightarrow> 'a list fx" where
  "filterM p [] = ret []"
| "filterM p (x # xs) =
     bnd (p x) (\<lambda>b. bnd (filterM p xs) (\<lambda>ys. ret (if b then x # ys else ys)))"

fun mapM :: "('a \<Rightarrow> 'b fx) \<Rightarrow> 'a list \<Rightarrow> 'b list fx" where
  "mapM f [] = ret []"
| "mapM f (x # xs) = bnd (f x) (\<lambda>y. bnd (mapM f xs) (\<lambda>ys. ret (y # ys)))"

fun forM :: "'a list \<Rightarrow> ('a \<Rightarrow> unit fx) \<Rightarrow> unit fx" where
  "forM [] f = ret ()"
| "forM (x # xs) f = bnd (f x) (\<lambda>u. forM xs f)"

text \<open>
  \<^verbatim>\<open>g.get_submodule(target)\<close> raises when no submodule has that name. Reading
  \<^verbatim>\<open>eps_in\<close> or \<^verbatim>\<open>eps_out\<close> of a module that is no tunnel raises as well.
\<close>

definition get_submodule :: "string \<Rightarrow> module fx" where
  "get_submodule t =
     bnd (gets (\<lambda>g. modules g t))
       (\<lambda>r. case r of None \<Rightarrow> throw AttributeError | Some m \<Rightarrow> ret m)"

fun eps_in :: "module \<Rightarrow> tensor fx" where
  "eps_in (EpsTunnel ei eo) = ret ei"
| "eps_in (OtherModule c) = throw AttributeError"

fun eps_out :: "module \<Rightarrow> tensor fx" where
  "eps_out (EpsTunnel ei eo) = ret eo"
| "eps_out (OtherModule c) = throw AttributeError"

text \<open>
  Comparing two tensors with \<^verbatim>\<open>==\<close> broadcasts them to a common shape. The shorter
  shape is padded with ones in front; along every dimension the two sizes must agree or
  one of them must be one, and the tensor of size one is repeated along that dimension.
  When the shapes do not fit, the comparison raises. \<open>blocks n k xs\<close> cuts \<open>xs\<close>
  into its first \<open>n\<close> pieces of length \<open>k\<close>; \<open>expand s t xs\<close> are the entries
  of the tensor of shape \<open>s\<close> and entries \<open>xs\<close> once it is broadcast to \<open>t\<close>.
\<close>

definition pad_shape :: "nat \<Rightarrow> nat list \<Rightarrow> nat list" where
  "pad_shape r s = replicate (r - length s) 1 @ s"

fun broadcast_shapes :: "nat list \<Rightarrow> nat list \<Rightarrow> nat list option" where
  "broadcast_shapes [] [] = Some []"
| "broadcast_shapes (a # s) (b # t) =
     (if a = b \<or> b = 1 then map_option ((#) a) (broadcast_shapes s t)
      else if a = 1 then map_option ((#) b) (broadcast_shapes s t)
      else None)"
| "broadcast_shapes s t = None"

fun blocks :: "nat \<Rightarrow> nat \<Rightarrow> 'a list \<Rightarrow> 'a list list" where
  "blocks 0 k xs = []"
| "blocks (Suc n) k xs = take k xs # blocks n k (drop k xs)"

fun expand :: "nat list \<Rightarrow> nat list \<Rightarrow> 'a list \<Rightarrow> 'a list" where
  "expand (d # ds) (D # Ds) xs =
     (let rows = map (expand ds Ds) (blocks d (prod_list ds) xs)
      in if d = D then concat rows else concat (replicate D (concat rows)))"
| "expand ds Ds xs = xs"

text \<open>
  \<^verbatim>\<open>torch.all(a == b)\<close> on two tensors: every pair of entries that the broadcast
  brings together is equal. \<^verbatim>\<open>torch.all(a == c)\<close> for a number \<open>c\<close>: every entry
  is \<open>c\<close>; this comparison cannot raise. \<open>lift\<close> makes the outcome of a
  computation that does not touch the graph a step of a computation that does.
\<close>

definition torch_all_eq :: "tensor \<Rightarrow> tensor \<Rightarrow> error + bool" where
  "torch_all_eq a b =
     (let r = max (length (shape a)) (length (shape b));
          sa = pad_shape r (shape a);
          sb = pad_shape r (shape b)
      in case broadcast_shapes sa sb of
           None \<Rightarrow> Inl RuntimeError
         | Some s \<Rightarrow> Inr (list_all2 (=) (expand sa s (elems a)) (expand sb s (elems b))))"

definition torch_all_eq_scalar :: "tensor \<Rightarrow> real \<Rightarrow> bool" where
  "torch_all_eq_scalar a c = list_all (\<lambda>x. x = c) (elems a)"

definition lift :: "error + 'a \<Rightarrow> 'a fx" where
  "lift r = (\<lambda>g. (r, g))"

section \<open>The finder of removable tunnels\<close>

text \<open>Modelled from the spec: the application point of the finder wraps one node.\<close>

datatype EpsTunnelNode = EpsTunnelNode nid

fun ap_node :: "EpsTunnelNode \<Rightarrow> nid" where
  "ap_node (EpsTunnelNode n) = n"

definition is_identity_epstunnel :: "nid \<Rightarrow> bool fx" where
  "is_identity_epstunnel n =
     bnd (gets (\<lambda>g. target (attrs g n))) (\<lambda>t.
     bnd (get_submodule t) (\<lambda>m.
     bnd (eps_in m) (\<lambda>ei.
     bnd (eps_out m) (\<lambda>eo.
     lift (torch_all_eq ei eo)))))"

definition is_integerised_placeholder :: "nid \<Rightarrow> bool fx" where
  "is_integerised_placeholder n =
     bnd (gets (\<lambda>g. all_input_nodes g n)) (\<lambda>ins.
     bnd (py_assert (length ins = 1)) (\<lambda>u.
     bnd (ret (hd ins)) (\<lambda>predecessor.
     bnd (gets (\<lambda>g. target (attrs g n))) (\<lambda>t.
     bnd (get_submodule t) (\<lambda>m.
     bnd (gets (\<lambda>g. op (attrs g predecessor))) (\<lambda>pop.
     if pop \<in> PLACEHOLDER
     then bnd (eps_out m) (\<lambda>eo. ret (torch_all_eq_scalar eo 1))
     else ret False))))))"

text \<open>
  Despite its name, \<^verbatim>\<open>is_output_node\<close> answers False exactly when the only user of
  the node is an output node, and True otherwise.
\<close>

definition is_output_node :: "nid \<Rightarrow> bool fx" where
  "is_output_node n =
     bnd (gets (\<lambda>g. users g n)) (\<lambda>us.
     if length us = 1
     then bnd (gets (\<lambda>g. op (attrs g (hd us)))) (\<lambda>uop.
          if uop \<in> OUTPUT then ret False else ret True)
     else ret True)"

text \<open>
  \<^verbatim>\<open>list(set(xs))\<close> keeps one copy of every element, in an order Python does not
  specify; \<open>remdups\<close> is one such order, and the theorems below use only the elements
  of the result and their multiplicity.
\<close>

definition EpsTunnelRemoverFinder_find :: "EpsTunnelNode list fx" where
  "EpsTunnelRemoverFinder_find =
     bnd (gets nodes) (\<lambda>ns.
     bnd (filterM (\<lambda>n. gets (\<lambda>g. op (attrs g n) \<in> CALL_MODULE)) ns) (\<lambda>module_nodes.
     bnd (filterM (\<lambda>n. bnd (gets (\<lambda>g. target (attrs g n))) (\<lambda>t.
                        bnd (get_submodule t) (\<lambda>m. ret (is_EpsTunnel m))))
            module_nodes) (\<lambda>epstunnels.
     bnd (filterM is_identity_epstunnel epstunnels) (\<lambda>identitytunnels.
     bnd (filterM is_integerised_placeholder epstunnels) (\<lambda>integerisedplhl.
     bnd (ret (remdups (identitytunnels @ integerisedplhl))) (\<lambda>ls.
     bnd (filterM is_output_node ls) (\<lambda>not_output_node.
     ret (map EpsTunnelNode not_output_node))))))))"

definition check_aps_commutativity :: "EpsTunnelNode list \<Rightarrow> bool" where
  "check_aps_commutativity aps = (length aps = card (set (map ap_node aps)))"

section \<open>The tunnel remover of the newer editing package\<close>

record EpsTunnelRemover =
  name :: string
  force :: bool

definition EpsTunnelRemover_init :: "bool \<Rightarrow> EpsTunnelRemover" where
  "EpsTunnelRemover_init f = \<lparr>name = ''EpsTunnelRemover'', force = f\<rparr>"

text \<open>
  Modelled from the spec: an application point names the rewriter that produced it and
  the node it is about (its core); the graph it refers to is the graph the computation
  runs on. Its class is not among the sources.
\<close>

record ApplicationPoint =
  rewriter :: string
  apcore :: nid

text \<open>
  Modelled from the spec: \<^verbatim>\<open>nnmodule_from_fxnode\<close> resolves a node to the
  submodule its target names; the helper is not among the sources.
\<close>

definition nnmodule_from_fxnode :: "nid \<Rightarrow> module fx" where
  "nnmodule_from_fxnode n = bnd (gets (\<lambda>g. target (attrs g n))) get_submodule"

text \<open>
  The filter predicates are conjunctions; Python evaluates a conjunct only when the ones
  before it hold.
\<close>

definition force_pred :: "nid \<Rightarrow> bool fx" where
  "force_pred n =
     bnd (gets (\<lambda>g. op (attrs g n) \<in> FXOPCODE_CALL_MODULE)) (\<lambda>c.
     if \<not> c then ret False
     else bnd (nnmodule_from_fxnode n) (\<lambda>m. ret (is_EpsTunnel m)))"

definition identity_pred :: "nid \<Rightarrow> bool fx" where
  "identity_pred n =
     bnd (gets (\<lambda>g. op (attrs g n) \<in> FXOPCODE_CALL_MODULE)) (\<lambda>c.
     if \<not> c then ret False
     else bnd (nnmodule_from_fxnode n) (\<lambda>m.
     if \<not> is_EpsTunnel m then ret False
     else bnd (nnmodule_from_fxnode n) (\<lambda>m1.
          bnd (eps_in m1) (\<lambda>ei.
          bnd (nnmodule_from_fxnode n) (\<lambda>m2.
          bnd (eps_out m2) (\<lambda>eo.
          lift (torch_all_eq ei eo)))))))"

definition EpsTunnelRemover_find :: "EpsTunnelRemover \<Rightarrow> ApplicationPoint list fx" where
  "EpsTunnelRemover_find self =
     bnd (gets nodes) (\<lambda>ns.
     bnd (if force self then filterM force_pred ns else filterM identity_pred ns) (\<lambda>apcores.
     ret (map (\<lambda>a. \<lparr>rewriter = name self, apcore = a\<rparr>) apcores)))"

text \<open>The body of \<^verbatim>\<open>_check_aps\<close> is \<^verbatim>\<open>pass\<close>.\<close>

definition EpsTunnelRemover_check_aps :: "ApplicationPoint list \<Rightarrow> unit fx" where
  "EpsTunnelRemover_check_aps aps = ret ()"

text \<open>
  The mutators of the substrate. \<^verbatim>\<open>replace_input_with\<close> rewrites the arguments of
  one node; \<^verbatim>\<open>delete_submodule\<close> answers whether there was a submodule to delete;
  \<^verbatim>\<open>erase_node\<close> refuses a node that still has users, and otherwise takes the
  node out of the graph and empties the arguments of the erased node object.
\<close>

definition replace_input_with :: "nid \<Rightarrow> nid \<Rightarrow> nid \<Rightarrow> unit fx" where
  "replace_input_with dn old new =
     modify (\<lambda>g. g\<lparr>attrs := (attrs g)
       (dn := (attrs g dn)\<lparr>args := map (\<lambda>a. if a = old then new else a) (args (attrs g dn))\<rparr>)\<rparr>)"

definition delete_submodule :: "string \<Rightarrow> bool fx" where
  "delete_submodule t =
     bnd (gets (\<lambda>g. modules g t)) (\<lambda>r.
     case r of None \<Rightarrow> ret False
     | Some m \<Rightarrow> bnd (modify (\<lambda>g. g\<lparr>modules := (modules g)(t := None)\<rparr>)) (\<lambda>u. ret True))"

definition erase_node :: "nid \<Rightarrow> unit fx" where
  "erase_node n =
     bnd (gets (\<lambda>g. users g n)) (\<lambda>us.
     if length us > 0 then throw RuntimeError
     else modify (\<lambda>g. g\<lparr>nodes := removeAll n (nodes g),
                          attrs := (attrs g)(n := (attrs g n)\<lparr>args := []\<rparr>)\<rparr>))"

definition EpsTunnelRemover_apply :: "ApplicationPoint \<Rightarrow> unit fx" where
  "EpsTunnelRemover_apply ap =
     bnd (ret (apcore ap)) (\<lambda>n.
     bnd (gets (\<lambda>g. remdups (all_input_nodes g n))) (\<lambda>upstream_nodes.
     bnd (py_assert (length upstream_nodes = 1)) (\<lambda>u1.
     bnd (ret (hd upstream_nodes)) (\<lambda>un.
     bnd (gets (\<lambda>g. remdups (users g n))) (\<lambda>downstream_nodes.
     bnd (py_assert (length downstream_nodes = 1)) (\<lambda>u2.
     bnd (ret (hd downstream_nodes)) (\<lambda>dn.
     bnd (replace_input_with dn n un) (\<lambda>u3.
     bnd (gets (\<lambda>g. target (attrs g n))) (\<lambda>t.
     bnd (delete_submodule t) (\<lambda>u4.
     erase_node n))))))))))"

section \<open>The construct applier\<close>

text \<open>Modelled from the spec: a construct is a pair of tuples of tunnel nodes.\<close>

record CandidateEpsTunnelConstruct =
  backward :: "nid list"
  forward :: "nid list"

text \<open>
  Modelled from the spec: the mutators \<^verbatim>\<open>set_eps_in\<close> and \<^verbatim>\<open>set_eps_out\<close> of a
  tunnel store the tensor they are given. A module object is addressed by its name.
\<close>

definition set_eps_in :: "string \<Rightarrow> tensor \<Rightarrow> unit fx" where
  "set_eps_in t v =
     bnd (get_submodule t) (\<lambda>m.
     case m of
       EpsTunnel ei eo \<Rightarrow> modify (\<lambda>g. g\<lparr>modules := (modules g)(t \<mapsto> EpsTunnel v eo)\<rparr>)
     | OtherModule c \<Rightarrow> throw AttributeError)"

definition set_eps_out :: "string \<Rightarrow> tensor \<Rightarrow> unit fx" where
  "set_eps_out t v =
     bnd (get_submodule t) (\<lambda>m.
     case m of
       EpsTunnel ei eo \<Rightarrow> modify (\<lambda>g. g\<lparr>modules := (modules g)(t \<mapsto> EpsTunnel ei v)\<rparr>)
     | OtherModule c \<Rightarrow> throw AttributeError)"

definition ones_like :: "tensor \<Rightarrow> tensor" where
  "ones_like a = \<lparr>shape = shape a, elems = replicate (prod_list (shape a)) 1\<rparr>"

text \<open>
  The two loops that print read the inputs and the users of the backward nodes and
  change nothing; what they print is not modelled. Both loops run over
  \<^verbatim>\<open>ap.backward\<close>, as in the source.
\<close>

definition print_loop :: "nid list \<Rightarrow> unit fx" where
  "print_loop ns =
     forM ns (\<lambda>n.
       bnd (gets (\<lambda>g. all_input_nodes g n)) (\<lambda>predecessor.
       bnd (gets (\<lambda>g. users g n)) (\<lambda>us. ret ())))"

definition submodules_of :: "nid list \<Rightarrow> string list fx" where
  "submodules_of ns =
     mapM (\<lambda>n. bnd (gets (\<lambda>g. target (attrs g n))) (\<lambda>t.
               bnd (get_submodule t) (\<lambda>m. ret t))) ns"

definition EpsTunnelConstructApplier_apply :: "CandidateEpsTunnelConstruct \<Rightarrow> unit fx" where
  "EpsTunnelConstructApplier_apply ap =
     bnd (print_loop (backward ap)) (\<lambda>u1.
     bnd (submodules_of (backward ap)) (\<lambda>inbound_eps_tunnels.
     bnd (forM inbound_eps_tunnels (\<lambda>t.
            bnd (get_submodule t) (\<lambda>m.
            bnd (eps_out m) (\<lambda>eo. set_eps_out t (ones_like eo))))) (\<lambda>u2.
     bnd (print_loop (backward ap)) (\<lambda>u3.
     bnd (submodules_of (forward ap)) (\<lambda>outbound_eps_tunnels.
     forM outbound_eps_tunnels (\<lambda>t.
       bnd (get_submodule t) (\<lambda>m.
       bnd (eps_in m) (\<lambda>ei. set_eps_in t (ones_like ei)))))))))"

section \<open>The unsigned PACT activation\<close>

text \<open>
  A Python string is the list of the bytes of its UTF-8 encoding. \<^verbatim>\<open>str.lower\<close>
  belongs to the language, not to the repository, and follows the case tables of
  Unicode; the constructor below takes it as its first parameter \<open>lower\<close>, and what
  is proved of the constructor holds for every such function. \<open>ascii_lower\<close> is what
  \<^verbatim>\<open>str.lower\<close> does on a string of ASCII characters; the examples use it on such
  strings only.
\<close>

definition ascii_lower_char :: "char \<Rightarrow> char" where
  "ascii_lower_char c =
     (case map_of (zip ''ABCDEFGHIJKLMNOPQRSTUVWXYZ'' ''abcdefghijklmnopqrstuvwxyz'') c of
        None \<Rightarrow> c
      | Some d \<Rightarrow> d)"

definition ascii_lower :: "string \<Rightarrow> string" where
  "ascii_lower s = map ascii_lower_char s"

fun join :: "string \<Rightarrow> string list \<Rightarrow> string" where
  "join sep [] = []"
| "join sep [x] = x"
| "join sep (x # y # ys) = x @ sep @ join sep (y # ys)"

text \<open>
  The message is built before the assertion is tried, so building it can raise on its
  own: with no valid value at all, \<^verbatim>\<open>valid_values[-1]\<close> is out of range.
\<close>

definition expected_str :: "string list \<Rightarrow> error + string" where
  "expected_str valid_values =
     (if length valid_values = 1 then Inr (hd valid_values)
      else if valid_values = [] then Inl IndexError
      else Inr (join '', '' (butlast valid_values) @ '' or '' @ last valid_values))"

definition assert_param_valid :: "string \<Rightarrow> string \<Rightarrow> string \<Rightarrow> string list \<Rightarrow> error + unit" where
  "assert_param_valid cls v param_name valid_values =
     (case expected_str valid_values of
        Inl e \<Rightarrow> Inl e
      | Inr ex \<Rightarrow>
          (let error_str = ''['' @ cls @ '']  Invalid argument '' @ param_name @
                           '': Got '' @ v @ '', expected '' @ ex
           in if v \<in> set valid_values then Inr () else Inl (AssertionError error_str)))"

record PACTUnsignedAct =
  n_levels :: int
  clip_hi :: tensor
  clip_hi_requires_grad :: bool
  act_kind :: string
  init_clip :: string
  nb_std :: real
  leaky :: real
  started :: bool
  max_stat :: tensor
  min_stat :: tensor
  running_mean :: tensor
  running_var :: tensor

definition PACTUnsignedAct_init ::
  "(string \<Rightarrow> string) \<Rightarrow> int \<Rightarrow> string \<Rightarrow> bool \<Rightarrow> string \<Rightarrow> real \<Rightarrow> real \<Rightarrow>
     error + PACTUnsignedAct" where
  "PACTUnsignedAct_init lower n_levels_arg init_clip_arg learn_clip act_kind_arg leaky_arg
       nb_std_arg =
     (let act_kind_l = lower act_kind_arg;
          init_clip_l = lower init_clip_arg
      in case assert_param_valid ''PACTUnsignedAct'' act_kind_l ''act_kind''
                [''relu'', ''relu6'', ''leaky_relu''] of
           Inl e \<Rightarrow> Inl e
         | Inr u1 \<Rightarrow>
        (case assert_param_valid ''PACTUnsignedAct'' init_clip_l ''init_clip''
                [''max'', ''std'', ''const''] of
           Inl e \<Rightarrow> Inl e
         | Inr u2 \<Rightarrow>
             Inr \<lparr>n_levels = n_levels_arg, clip_hi = vec [1],
                  clip_hi_requires_grad = learn_clip,
                  act_kind = act_kind_l, init_clip = init_clip_l, nb_std = nb_std_arg,
                  leaky = leaky_arg, started = False,
                  max_stat = vec [0], min_stat = vec [0],
                  running_mean = vec [0], running_var = vec [1]\<rparr>))"

text \<open>
  What \<^verbatim>\<open>forward\<close> does with its input is decided by two fields alone: before the
  controller has started the layer it applies the activation its kind names (and leaves
  the input as it is when the kind is none of the three), afterwards it quantises. The
  numeric kernels themselves are outside this development.
\<close>

datatype forward_path = StatRelu | StatRelu6 | StatLeakyRelu real | StatUnchanged | Quantise

definition forward_path :: "PACTUnsignedAct \<Rightarrow> forward_path" where
  "forward_path self =
     (if \<not> started self then
        (if act_kind self = ''relu'' then StatRelu
         else if act_kind self = ''relu6'' then StatRelu6
         else if act_kind self = ''leaky_relu'' then StatLeakyRelu (leaky self)
         else StatUnchanged)
      else Quantise)"

section \<open>The vocabulary of the properties\<close>

text \<open>
  The outcome of a filter whose predicate only reads the graph: the first error the
  predicate meets, or else the elements it accepts.
\<close>

fun filter_res :: "('a \<Rightarrow> error + bool) \<Rightarrow> 'a list \<Rightarrow> error + 'a list" where
  "filter_res q [] = Inr []"
| "filter_res q (x # xs) =
     (case q x of
        Inl e \<Rightarrow> Inl e
      | Inr b \<Rightarrow> (case filter_res q xs of
                    Inl e \<Rightarrow> Inl e
                  | Inr ys \<Rightarrow> Inr (if b then x # ys else ys)))"

text \<open>
  The words of the specification. A tunnel node is a call-module node whose target names a
  tunnel. In a traced graph module the target of every call-module node names a submodule
  (\<open>resolves\<close>). The two tensors of a tunnel are comparable when their shapes can
  be broadcast together, and a graph is \<open>broadcastable\<close> when this is so at every tunnel
  node. A tunnel is an identity tunnel when its two tensors, broadcast together, agree
  entry by entry; it is an integerised placeholder when its only input node is a
  placeholder and every entry of \<^verbatim>\<open>eps_out\<close> is one; its sole consumer is the output
  when it has exactly one user and that user is an output node.
\<close>

definition tunnel_node :: "graph \<Rightarrow> nid \<Rightarrow> bool" where
  "tunnel_node g n =
     (op (attrs g n) \<in> CALL_MODULE \<and>
      (case modules g (target (attrs g n)) of None \<Rightarrow> False | Some m \<Rightarrow> is_EpsTunnel m))"

definition resolves :: "graph \<Rightarrow> bool" where
  "resolves g =
     list_all (\<lambda>n. op (attrs g n) = CallModule \<longrightarrow> modules g (target (attrs g n)) \<noteq> None)
       (nodes g)"

definition comparable :: "graph \<Rightarrow> nid \<Rightarrow> bool" where
  "comparable g n =
     (case modules g (target (attrs g n)) of
        Some (EpsTunnel ei eo) \<Rightarrow> (case torch_all_eq ei eo of Inl e \<Rightarrow> False | Inr b \<Rightarrow> True)
      | _ \<Rightarrow> True)"

definition broadcastable :: "graph \<Rightarrow> bool" where
  "broadcastable g = list_all (\<lambda>n. tunnel_node g n \<longrightarrow> comparable g n) (nodes g)"

definition identity_tunnel :: "graph \<Rightarrow> nid \<Rightarrow> bool" where
  "identity_tunnel g n =
     (case modules g (target (attrs g n)) of
        Some (EpsTunnel ei eo) \<Rightarrow> torch_all_eq ei eo = Inr True
      | _ \<Rightarrow> False)"

definition integerised_placeholder :: "graph \<Rightarrow> nid \<Rightarrow> bool" where
  "integerised_placeholder g n =
     (case all_input_nodes g n of
        [p] \<Rightarrow> op (attrs g p) = Placeholder \<and>
               (case modules g (target (attrs g n)) of
                  Some (EpsTunnel ei eo) \<Rightarrow> list_all (\<lambda>x. x = 1) (elems eo)
                | _ \<Rightarrow> False)
      | _ \<Rightarrow> False)"

definition sole_consumer_is_output :: "graph \<Rightarrow> nid \<Rightarrow> bool" where
  "sole_consumer_is_output g n =
     (case users g n of [d] \<Rightarrow> op (attrs g d) = Output | _ \<Rightarrow> False)"

definition single_input :: "graph \<Rightarrow> bool" where
  "single_input g =
     list_all (\<lambda>n. tunnel_node g n \<longrightarrow> length (all_input_nodes g n) = 1) (nodes g)"

text \<open>The nodes the finder selects, as a function of the graph.\<close>

definition candidates :: "graph \<Rightarrow> nid list" where
  "candidates g =
     filter (\<lambda>n. \<not> sole_consumer_is_output g n)
       (remdups (filter (identity_tunnel g) (filter (tunnel_node g) (nodes g)) @
                 filter (integerised_placeholder g) (filter (tunnel_node g) (nodes g))))"

text \<open>
  The graph after one tunnel \<open>n\<close> with input \<open>p\<close> and user \<open>d\<close> has been spliced
  out; the erased node object is left without arguments.
\<close>

definition spliced :: "graph \<Rightarrow> nid \<Rightarrow> nid \<Rightarrow> nid \<Rightarrow> graph" where
  "spliced g n p d =
     g\<lparr>nodes := removeAll n (nodes g),
       attrs := (attrs g)
         (d := (attrs g d)\<lparr>args := map (\<lambda>a. if a = n then p else a) (args (attrs g d))\<rparr>,
          n := (attrs g n)\<lparr>args := []\<rparr>),
       modules := (modules g)(target (attrs g n) := None)\<rparr>"

text \<open>
  The tensors of the tunnel a name stands for (if it stands for one), and the map of
  submodules after the two loops of the construct applier.
\<close>

definition tunnel_target :: "graph \<Rightarrow> string \<Rightarrow> bool" where
  "tunnel_target g t = (case modules g t of None \<Rightarrow> False | Some m \<Rightarrow> is_EpsTunnel m)"

fun opt_eps_in :: "module option \<Rightarrow> tensor option" where
  "opt_eps_in (Some (EpsTunnel ei eo)) = Some ei"
| "opt_eps_in r = None"

fun opt_eps_out :: "module option \<Rightarrow> tensor option" where
  "opt_eps_out (Some (EpsTunnel ei eo)) = Some eo"
| "opt_eps_out r = None"

definition the_eps_in :: "graph \<Rightarrow> string \<Rightarrow> tensor option" where
  "the_eps_in g t = opt_eps_in (modules g t)"

definition the_eps_out :: "graph \<Rightarrow> string \<Rightarrow> tensor option" where
  "the_eps_out g t = opt_eps_out (modules g t)"

fun out_one :: "module option \<Rightarrow> module option" where
  "out_one (Some (EpsTunnel ei eo)) = Some (EpsTunnel ei (ones_like eo))"
| "out_one r = r"

fun in_one :: "module option \<Rightarrow> module option" where
  "in_one (Some (EpsTunnel ei eo)) = Some (EpsTunnel (ones_like ei) eo)"
| "in_one r = r"

definition out_ones :: "string list \<Rightarrow> (string \<rightharpoonup> module) \<Rightarrow> (string \<rightharpoonup> module)" where
  "out_ones ts ms = (\<lambda>t. if t \<in> set ts then out_one (ms t) else ms t)"

definition in_ones :: "string list \<Rightarrow> (string \<rightharpoonup> module) \<Rightarrow> (string \<rightharpoonup> module)" where
  "in_ones ts ms = (\<lambda>t. if t \<in> set ts then in_one (ms t) else ms t)"

definition reconciled :: "graph \<Rightarrow> CandidateEpsTunnelConstruct \<Rightarrow> graph" where
  "reconciled g ap =
     g\<lparr>modules := in_ones (map (\<lambda>n. target (attrs g n)) (forward ap))
                    (out_ones (map (\<lambda>n. target (attrs g n)) (backward ap)) (modules g))\<rparr>"

text \<open>The values the constructor of the activation accepts.\<close>

definition valid_act_kinds :: "string list" where
  "valid_act_kinds = [''relu'', ''relu6'', ''leaky_relu'']"

definition valid_init_clips :: "string list" where
  "valid_init_clips = [''max'', ''std'', ''const'']"

section \<open>Example graphs\<close>

text \<open>
  \<open>graph_A\<close>: input, tunnel, output. \<open>graph_B\<close>: input, identity tunnel, ReLU,
  output. \<open>graph_C\<close>: input, a rescaling tunnel, an identity tunnel, output.
  \<open>graph_D\<close>: a tunnel with two inputs. \<open>graph_R\<close>: a convolution whose result
  reaches an addition both directly and through a tunnel, so that this tunnel both leaves
  and enters the region of the two operations. \<open>graph_S\<close>: input, a tunnel with a
  scalar \<^verbatim>\<open>eps_in\<close> and a per-channel \<^verbatim>\<open>eps_out\<close> of the same value, ReLU,
  output. \<open>graph_N\<close>: a tunnel with two inputs, followed by a tunnel whose tensors
  have two and three entries and cannot be broadcast together.
\<close>

definition graph_A :: graph where
  "graph_A =
     \<lparr>nodes = [0, 1, 2],
      attrs = (\<lambda>i. if i = 0 then \<lparr>op = Placeholder, target = ''x'', args = []\<rparr>
                   else if i = 1 then \<lparr>op = CallModule, target = ''tunnel_a'', args = [0]\<rparr>
                   else \<lparr>op = Output, target = ''output'', args = [1]\<rparr>),
      modules = [''tunnel_a'' \<mapsto> EpsTunnel (vec [1 / 2]) (vec [1 / 2])]\<rparr>"

definition graph_B :: graph where
  "graph_B =
     \<lparr>nodes = [0, 1, 2, 3],
      attrs = (\<lambda>i. if i = 0 then \<lparr>op = Placeholder, target = ''x'', args = []\<rparr>
                   else if i = 1 then \<lparr>op = CallModule, target = ''tunnel_b'', args = [0]\<rparr>
                   else if i = 2 then \<lparr>op = CallModule, target = ''relu'', args = [1]\<rparr>
                   else \<lparr>op = Output, target = ''output'', args = [2]\<rparr>),
      modules = [''tunnel_b'' \<mapsto> EpsTunnel (vec [1]) (vec [1]), ''relu'' \<mapsto> OtherModule ''ReLU'']\<rparr>"

definition graph_C :: graph where
  "graph_C =
     \<lparr>nodes = [0, 1, 2, 3],
      attrs = (\<lambda>i. if i = 0 then \<lparr>op = Placeholder, target = ''x'', args = []\<rparr>
                   else if i = 1 then \<lparr>op = CallModule, target = ''tunnel_c'', args = [0]\<rparr>
                   else if i = 2 then \<lparr>op = CallModule, target = ''tunnel_d'', args = [1]\<rparr>
                   else \<lparr>op = Output, target = ''output'', args = [2]\<rparr>),
      modules = [''tunnel_c'' \<mapsto> EpsTunnel (vec [1 / 4]) (vec [1 / 2]),
                 ''tunnel_d'' \<mapsto> EpsTunnel (vec [1 / 2]) (vec [1 / 2])]\<rparr>"

definition graph_D :: graph where
  "graph_D =
     \<lparr>nodes = [0, 1, 2, 3, 4],
      attrs = (\<lambda>i. if i = 0 then \<lparr>op = Placeholder, target = ''x'', args = []\<rparr>
                   else if i = 1 then \<lparr>op = Placeholder, target = ''y'', args = []\<rparr>
                   else if i = 2 then \<lparr>op = CallModule, target = ''tunnel_e'', args = [0, 1]\<rparr>
                   else if i = 3 then \<lparr>op = CallModule, target = ''relu'', args = [2]\<rparr>
                   else \<lparr>op = Output, target = ''output'', args = [3]\<rparr>),
      modules = [''tunnel_e'' \<mapsto> EpsTunnel (vec [1 / 4]) (vec [1 / 2]), ''relu'' \<mapsto> OtherModule ''ReLU'']\<rparr>"

definition graph_R :: graph where
  "graph_R =
     \<lparr>nodes = [0, 1, 2, 3, 4, 5, 6],
      attrs = (\<lambda>i. if i = 0 then \<lparr>op = Placeholder, target = ''x'', args = []\<rparr>
                   else if i = 1 then \<lparr>op = CallModule, target = ''tunnel_in'', args = [0]\<rparr>
                   else if i = 2 then \<lparr>op = CallModule, target = ''conv'', args = [1]\<rparr>
                   else if i = 3 then \<lparr>op = CallModule, target = ''tunnel_mid'', args = [2]\<rparr>
                   else if i = 4 then \<lparr>op = CallFunction, target = ''add'', args = [3, 2]\<rparr>
                   else if i = 5 then \<lparr>op = CallModule, target = ''tunnel_out'', args = [4]\<rparr>
                   else \<lparr>op = Output, target = ''output'', args = [5]\<rparr>),
      modules = [''tunnel_in'' \<mapsto> EpsTunnel (vec [1 / 4]) (vec [1 / 4]),
                 ''conv'' \<mapsto> OtherModule ''Conv2d'',
                 ''tunnel_mid'' \<mapsto> EpsTunnel (vec [1 / 2]) (vec [1 / 8]),
                 ''tunnel_out'' \<mapsto> EpsTunnel (vec [1 / 8]) (vec [1 / 8])]\<rparr>"

definition graph_S :: graph where
  "graph_S =
     \<lparr>nodes = [0, 1, 2, 3],
      attrs = (\<lambda>i. if i = 0 then \<lparr>op = Placeholder, target = ''x'', args = []\<rparr>
                   else if i = 1 then \<lparr>op = CallModule, target = ''tunnel_s'', args = [0]\<rparr>
                   else if i = 2 then \<lparr>op = CallModule, target = ''relu'', args = [1]\<rparr>
                   else \<lparr>op = Output, target = ''output'', args = [2]\<rparr>),
      modules = [''tunnel_s'' \<mapsto> EpsTunnel (vec [1 / 2]) (vec [1 / 2, 1 / 2, 1 / 2]),
                 ''relu'' \<mapsto> OtherModule ''ReLU'']\<rparr>"

definition graph_N :: graph where
  "graph_N =
     \<lparr>nodes = [0, 1, 2, 3, 4, 5],
      attrs = (\<lambda>i. if i = 0 then \<lparr>op = Placeholder, target = ''x'', args = []\<rparr>
                   else if i = 1 then \<lparr>op = Placeholder, target = ''y'', args = []\<rparr>
                   else if i = 2 then \<lparr>op = CallModule, target = ''tunnel_e'', args = [0, 1]\<rparr>
                   else if i = 3 then \<lparr>op = CallModule, target = ''tunnel_n'', args = [2]\<rparr>
                   else if i = 4 then \<lparr>op = CallModule, target = ''relu'', args = [3]\<rparr>
                   else \<lparr>op = Output, target = ''output'', args = [4]\<rparr>),
      modules = [''tunnel_e'' \<mapsto> EpsTunnel (vec [1 / 4]) (vec [1 / 2]),
                 ''tunnel_n'' \<mapsto> EpsTunnel (vec [1 / 2, 1 / 2]) (vec [1 / 2, 1 / 2, 1 / 2]),
                 ''relu'' \<mapsto> OtherModule ''ReLU'']\<rparr>"

definition ap_B :: ApplicationPoint where
  "ap_B = \<lparr>rewriter = ''EpsTunnelRemover'', apcore = 1\<rparr>"

definition ap_D :: ApplicationPoint where
  "ap_D = \<lparr>rewriter = ''EpsTunnelRemover'', apcore = 2\<rparr>"

definition ap_R :: CandidateEpsTunnelConstruct where
  "ap_R = \<lparr>backward = [1, 3], forward = [3, 5]\<rparr>"

definition ap_R_outer :: CandidateEpsTunnelConstruct where
  "ap_R_outer = \<lparr>backward = [1], forward = [5]\<rparr>"

section \<open>Running the computations\<close>

subsection \<open>Computations applied to a graph\<close>

lemma bnd_apply:
  "bnd m f g = (case m g of (Inl e, g') \<Rightarrow> (Inl e, g') | (Inr x, g') \<Rightarrow> f x g')"
  by (simp add: bnd_def)

lemma gets_apply: "gets f g = (Inr (f g), g)"
  by (simp add: gets_def)

lemma ret_apply: "ret x g = (Inr x, g)"
  by (simp add: ret_def)

lemma throw_apply: "throw e g = (Inl e, g)"
  by (simp add: throw_def)

lemma modify_apply: "modify f g = (Inr (), f g)"
  by (simp add: modify_def)

lemma forM_step:
  assumes "f x g = (Inr (), g1)" and "forM xs f g1 = r"
  shows "forM (x # xs) f g = r"
  using assms by (simp add: bnd_def)

subsection \<open>Filters that only read\<close>

lemma filterM_reads:
  assumes "\<And>x. p x g = (q x, g)"
  shows "filterM p xs g = (filter_res q xs, g)"
  using assms
  by (induction xs) (auto simp: ret_def bnd_def split: sum.splits prod.splits)

lemma filter_res_total:
  assumes "\<And>x. x \<in> set xs \<Longrightarrow> q x = Inr (P x)"
  shows "filter_res q xs = Inr (filter P xs)"
  using assms by (induction xs) auto

lemma filter_res_error:
  assumes "\<And>x. x \<in> set xs \<Longrightarrow> q x = Inr (P x) \<or> q x = Inl e"
  shows "filter_res q xs = (if \<exists>x\<in>set xs. q x = Inl e then Inl e else Inr (filter P xs))"
  using assms
proof (induction xs)
  case Nil
  then show ?case by simp
next
  case (Cons x xs)
  have hx: "q x = Inr (P x) \<or> q x = Inl e" using Cons.prems by simp
  have ih: "filter_res q xs = (if \<exists>x\<in>set xs. q x = Inl e then Inl e else Inr (filter P xs))"
    using Cons by simp
  from hx show ?case
  proof
    assume "q x = Inr (P x)"
    then show ?thesis using ih by auto
  next
    assume "q x = Inl e"
    then show ?thesis by auto
  qed
qed

subsection \<open>The finder\<close>

lemma lift_apply: "lift r g = (r, g)"
  by (simp add: lift_def)

lemma torch_all_eq_cases:
  "torch_all_eq a b = Inl RuntimeError \<or> (\<exists>c. torch_all_eq a b = Inr c)"
  by (simp add: torch_all_eq_def Let_def split: option.splits)

lemma is_identity_epstunnel_run:
  "is_identity_epstunnel n g =
     ((case modules g (target (attrs g n)) of
         None \<Rightarrow> Inl AttributeError
       | Some (EpsTunnel ei eo) \<Rightarrow> torch_all_eq ei eo
       | Some (OtherModule c) \<Rightarrow> Inl AttributeError), g)"
  by (simp add: is_identity_epstunnel_def get_submodule_def bnd_def gets_def ret_def throw_def
      lift_def split: option.splits module.splits)

lemma is_integerised_placeholder_run:
  "is_integerised_placeholder n g =
     ((if length (all_input_nodes g n) \<noteq> 1 then Inl (AssertionError [])
       else case modules g (target (attrs g n)) of
         None \<Rightarrow> Inl AttributeError
       | Some m \<Rightarrow>
          if op (attrs g (hd (all_input_nodes g n))) \<in> PLACEHOLDER
          then (case m of EpsTunnel ei eo \<Rightarrow> Inr (torch_all_eq_scalar eo 1)
                        | OtherModule c \<Rightarrow> Inl AttributeError)
          else Inr False), g)"
  by (simp add: is_integerised_placeholder_def get_submodule_def py_assert_def bnd_def gets_def
      ret_def throw_def split: option.splits module.splits)

lemma is_output_node_run:
  "is_output_node n g =
     (Inr (\<not> (length (users g n) = 1 \<and> op (attrs g (hd (users g n))) \<in> OUTPUT)), g)"
  by (simp add: is_output_node_def bnd_def gets_def ret_def)

lemma is_tunnel_run:
  "bnd (gets (\<lambda>g. target (attrs g n))) (\<lambda>t. bnd (get_submodule t) (\<lambda>m. ret (is_EpsTunnel m))) g =
     ((case modules g (target (attrs g n)) of
         None \<Rightarrow> Inl AttributeError | Some m \<Rightarrow> Inr (is_EpsTunnel m)), g)"
  by (simp add: get_submodule_def bnd_def gets_def ret_def throw_def split: option.splits)

lemma sole_consumer_is_output_iff:
  "sole_consumer_is_output g n =
     (length (users g n) = 1 \<and> op (attrs g (hd (users g n))) \<in> OUTPUT)"
  by (auto simp: sole_consumer_is_output_def OUTPUT_def split: list.splits)

lemma integerised_placeholder_iff:
  "length (all_input_nodes g n) = 1 \<Longrightarrow> modules g (target (attrs g n)) = Some (EpsTunnel ei eo) \<Longrightarrow>
   integerised_placeholder g n =
     (op (attrs g (hd (all_input_nodes g n))) \<in> PLACEHOLDER \<and> torch_all_eq_scalar eo 1)"
  by (cases "all_input_nodes g n")
     (auto simp: integerised_placeholder_def PLACEHOLDER_def torch_all_eq_scalar_def
           split: list.splits)

lemma tunnel_nodeD:
  assumes "tunnel_node g n"
  shows "\<exists>ei eo. modules g (target (attrs g n)) = Some (EpsTunnel ei eo)"
proof (cases "modules g (target (attrs g n))")
  case None
  then show ?thesis using assms by (simp add: tunnel_node_def)
next
  case (Some m)
  then show ?thesis using assms by (cases m) (simp_all add: tunnel_node_def)
qed

lemma call_module_filter_run:
  "filterM (\<lambda>n. gets (\<lambda>g. op (attrs g n) \<in> CALL_MODULE)) (nodes g) g =
     (Inr (filter (\<lambda>n. op (attrs g n) \<in> CALL_MODULE) (nodes g)), g)"
  by (subst filterM_reads [where q = "\<lambda>n. Inr (op (attrs g n) \<in> CALL_MODULE)"])
     (simp_all add: gets_def filter_res_total)

lemma tunnel_filter_run:
  assumes res: "resolves g"
  shows "filterM (\<lambda>n. bnd (gets (\<lambda>g. target (attrs g n)))
                (\<lambda>t. bnd (get_submodule t) (\<lambda>m. ret (is_EpsTunnel m))))
           (filter (\<lambda>n. op (attrs g n) \<in> CALL_MODULE) (nodes g)) g =
         (Inr (filter (tunnel_node g) (nodes g)), g)"
proof -
  let ?M = "filter (\<lambda>n. op (attrs g n) \<in> CALL_MODULE) (nodes g)"
  let ?T = "filter (tunnel_node g) (nodes g)"
  have rm: "modules g (target (attrs g n)) \<noteq> None" if "n \<in> set ?M" for n
    using res that by (auto simp: resolves_def list_all_iff CALL_MODULE_def)
  have T_eq: "filter (\<lambda>n. case modules g (target (attrs g n)) of
                 None \<Rightarrow> False | Some m \<Rightarrow> is_EpsTunnel m) ?M = ?T"
    by (simp add: tunnel_node_def [abs_def] conj_commute)
  have "filter_res (\<lambda>n. case modules g (target (attrs g n)) of
            None \<Rightarrow> Inl AttributeError | Some m \<Rightarrow> Inr (is_EpsTunnel m)) ?M =
        Inr (filter (\<lambda>n. case modules g (target (attrs g n)) of
               None \<Rightarrow> False | Some m \<Rightarrow> is_EpsTunnel m) ?M)"
    using rm by (intro filter_res_total) (auto split: option.splits)
  then have "filter_res (\<lambda>n. case modules g (target (attrs g n)) of
            None \<Rightarrow> Inl AttributeError | Some m \<Rightarrow> Inr (is_EpsTunnel m)) ?M = Inr ?T"
    by (simp only: T_eq)
  then show ?thesis
    by (simp only: filterM_reads [OF is_tunnel_run])
qed

lemma identity_filter_run:
  "filterM is_identity_epstunnel (filter (tunnel_node g) (nodes g)) g =
     ((if \<exists>n\<in>set (filter (tunnel_node g) (nodes g)). \<not> comparable g n
       then Inl RuntimeError
       else Inr (filter (identity_tunnel g) (filter (tunnel_node g) (nodes g)))), g)"
proof -
  let ?T = "filter (tunnel_node g) (nodes g)"
  let ?q = "\<lambda>n. case modules g (target (attrs g n)) of
              None \<Rightarrow> Inl AttributeError
            | Some (EpsTunnel ei eo) \<Rightarrow> torch_all_eq ei eo
            | Some (OtherModule c) \<Rightarrow> Inl AttributeError"
  have q1: "?q n = (if comparable g n then Inr (identity_tunnel g n) else Inl RuntimeError)"
    if nT: "n \<in> set ?T" for n
  proof -
    obtain ei eo where m: "modules g (target (attrs g n)) = Some (EpsTunnel ei eo)"
      using nT tunnel_nodeD [of g n] by auto
    show ?thesis
      using torch_all_eq_cases [of ei eo]
      by (auto simp add: m comparable_def identity_tunnel_def)
  qed
  have "filter_res ?q ?T =
       (if \<exists>n\<in>set ?T. ?q n = Inl RuntimeError then Inl RuntimeError
        else Inr (filter (identity_tunnel g) ?T))"
    using q1 by (intro filter_res_error) auto
  moreover have "(\<exists>n\<in>set ?T. ?q n = Inl RuntimeError) = (\<exists>n\<in>set ?T. \<not> comparable g n)"
    using q1 by (metis (no_types, lifting) Inl_Inr_False)
  ultimately show ?thesis
    by (subst filterM_reads [OF is_identity_epstunnel_run]) simp
qed

lemma placeholder_filter_run:
  "filterM is_integerised_placeholder (filter (tunnel_node g) (nodes g)) g =
     ((if \<exists>n\<in>set (filter (tunnel_node g) (nodes g)). length (all_input_nodes g n) \<noteq> 1
       then Inl (AssertionError [])
       else Inr (filter (integerised_placeholder g) (filter (tunnel_node g) (nodes g)))), g)"
proof -
  let ?T = "filter (tunnel_node g) (nodes g)"
  let ?q = "\<lambda>n. if length (all_input_nodes g n) \<noteq> 1 then Inl (AssertionError [])
       else case modules g (target (attrs g n)) of
         None \<Rightarrow> Inl AttributeError
       | Some m \<Rightarrow>
          if op (attrs g (hd (all_input_nodes g n))) \<in> PLACEHOLDER
          then (case m of EpsTunnel ei eo \<Rightarrow> Inr (torch_all_eq_scalar eo 1)
                        | OtherModule c \<Rightarrow> Inl AttributeError)
          else Inr False"
  have q1: "?q n = (if length (all_input_nodes g n) \<noteq> 1 then Inl (AssertionError [])
                    else Inr (integerised_placeholder g n))" if nT: "n \<in> set ?T" for n
  proof -
    obtain ei eo where m: "modules g (target (attrs g n)) = Some (EpsTunnel ei eo)"
      using nT tunnel_nodeD [of g n] by auto
    show ?thesis
      using m integerised_placeholder_iff [OF _ m] by auto
  qed
  have "filter_res ?q ?T =
       (if \<exists>n\<in>set ?T. ?q n = Inl (AssertionError []) then Inl (AssertionError [])
        else Inr (filter (integerised_placeholder g) ?T))"
    using q1 by (intro filter_res_error) auto
  moreover have "(\<exists>n\<in>set ?T. ?q n = Inl (AssertionError [])) =
                 (\<exists>n\<in>set ?T. length (all_input_nodes g n) \<noteq> 1)"
    using q1 by (metis (no_types, lifting) Inl_Inr_False)
  ultimately show ?thesis
    by (subst filterM_reads [OF is_integerised_placeholder_run]) simp
qed

lemma output_filter_run:
  "filterM is_output_node xs g = (Inr (filter (\<lambda>n. \<not> sole_consumer_is_output g n) xs), g)"
  by (subst filterM_reads [OF is_output_node_run])
     (simp add: filter_res_total sole_consumer_is_output_iff)

lemma broadcastable_iff:
  "broadcastable g = (\<not> (\<exists>n\<in>set (filter (tunnel_node g) (nodes g)). \<not> comparable g n))"
  by (auto simp: broadcastable_def list_all_iff)

lemma find_run:
  assumes res: "resolves g" and bc: "broadcastable g"
  shows "EpsTunnelRemoverFinder_find g =
     ((if \<exists>n\<in>set (nodes g). tunnel_node g n \<and> length (all_input_nodes g n) \<noteq> 1
       then Inl (AssertionError [])
       else Inr (map EpsTunnelNode (candidates g))), g)"
proof -
  have s3: "filterM is_identity_epstunnel (filter (tunnel_node g) (nodes g)) g =
              (Inr (filter (identity_tunnel g) (filter (tunnel_node g) (nodes g))), g)"
    using bc by (simp only: identity_filter_run broadcastable_iff if_False)
  show ?thesis
    by (auto simp add: EpsTunnelRemoverFinder_find_def bnd_apply gets_apply ret_apply
        call_module_filter_run tunnel_filter_run [OF res] s3 placeholder_filter_run
        output_filter_run candidates_def)
qed

lemma find_run_unbroadcastable:
  assumes res: "resolves g" and bc: "\<not> broadcastable g"
  shows "EpsTunnelRemoverFinder_find g = (Inl RuntimeError, g)"
proof -
  have s3: "filterM is_identity_epstunnel (filter (tunnel_node g) (nodes g)) g =
              (Inl RuntimeError, g)"
    using bc by (simp only: identity_filter_run broadcastable_iff not_not if_True)
  show ?thesis
    by (simp add: EpsTunnelRemoverFinder_find_def bnd_apply gets_apply
        call_module_filter_run tunnel_filter_run [OF res] s3)
qed

lemma find_run_unresolved:
  assumes res: "\<not> resolves g"
  shows "EpsTunnelRemoverFinder_find g = (Inl AttributeError, g)"
proof -
  let ?M = "filter (\<lambda>n. op (attrs g n) \<in> CALL_MODULE) (nodes g)"
  let ?q = "\<lambda>n. case modules g (target (attrs g n)) of
              None \<Rightarrow> Inl AttributeError | Some m \<Rightarrow> Inr (is_EpsTunnel m)"
  obtain n where n: "n \<in> set ?M" "modules g (target (attrs g n)) = None"
    using res by (auto simp: resolves_def list_all_iff CALL_MODULE_def)
  have "filter_res ?q ?M =
          (if \<exists>x\<in>set ?M. ?q x = Inl AttributeError then Inl AttributeError
           else Inr (filter (\<lambda>n. case modules g (target (attrs g n)) of
                       None \<Rightarrow> False | Some m \<Rightarrow> is_EpsTunnel m) ?M))"
    by (rule filter_res_error) (auto split: option.splits)
  moreover have "\<exists>x\<in>set ?M. ?q x = Inl AttributeError"
    using n by (intro bexI [of _ n]) simp_all
  ultimately have s2: "filterM (\<lambda>n. bnd (gets (\<lambda>g. target (attrs g n)))
                (\<lambda>t. bnd (get_submodule t) (\<lambda>m. ret (is_EpsTunnel m)))) ?M g = (Inl AttributeError, g)"
    by (simp only: filterM_reads [OF is_tunnel_run] if_True)
  show ?thesis
    by (simp add: EpsTunnelRemoverFinder_find_def bnd_apply gets_apply call_module_filter_run s2)
qed

lemma find_frame: "snd (EpsTunnelRemoverFinder_find g) = g"
  by (cases "resolves g"; cases "broadcastable g")
     (simp_all add: find_run find_run_unbroadcastable find_run_unresolved)

lemma find_Inr_resolves:
  "fst (EpsTunnelRemoverFinder_find g) = Inr aps \<Longrightarrow> resolves g \<and> broadcastable g"
  by (cases "resolves g"; cases "broadcastable g")
     (simp_all add: find_run_unbroadcastable find_run_unresolved)

lemma set_candidates:
  "set (candidates g) =
     {n \<in> set (nodes g). tunnel_node g n \<and>
        (identity_tunnel g n \<or> integerised_placeholder g n) \<and> \<not> sole_consumer_is_output g n}"
  by (auto simp: candidates_def)

lemma distinct_candidates: "distinct (candidates g)"
  by (simp add: candidates_def)

lemma ap_node_map: "map ap_node (map EpsTunnelNode xs) = xs"
  by (induction xs) simp_all

lemma check_aps_commutativity_iff:
  "check_aps_commutativity aps = distinct (map ap_node aps)"
  unfolding check_aps_commutativity_def
  by (metis card_distinct distinct_card length_map)

subsection \<open>The tunnel remover\<close>

lemma force_pred_run:
  "force_pred n g =
     ((if op (attrs g n) \<in> FXOPCODE_CALL_MODULE
       then (case modules g (target (attrs g n)) of
               None \<Rightarrow> Inl AttributeError | Some m \<Rightarrow> Inr (is_EpsTunnel m))
       else Inr False), g)"
  by (simp add: force_pred_def nnmodule_from_fxnode_def get_submodule_def bnd_def gets_def
      ret_def throw_def split: option.splits)

lemma identity_pred_run:
  "identity_pred n g =
     ((if op (attrs g n) \<in> FXOPCODE_CALL_MODULE
       then (case modules g (target (attrs g n)) of
               None \<Rightarrow> Inl AttributeError
             | Some (EpsTunnel ei eo) \<Rightarrow> torch_all_eq ei eo
             | Some (OtherModule c) \<Rightarrow> Inr False)
       else Inr False), g)"
  by (simp add: identity_pred_def nnmodule_from_fxnode_def get_submodule_def bnd_def gets_def
      ret_def throw_def lift_def split: option.splits module.splits)

lemma remover_find_run:
  assumes res: "resolves g"
  shows "EpsTunnelRemover_find self g =
     ((if force self
       then Inr (map (\<lambda>a. \<lparr>rewriter = name self, apcore = a\<rparr>)
                  (filter (tunnel_node g) (nodes g)))
       else if broadcastable g
       then Inr (map (\<lambda>a. \<lparr>rewriter = name self, apcore = a\<rparr>)
                  (filter (\<lambda>n. tunnel_node g n \<and> identity_tunnel g n) (nodes g)))
       else Inl RuntimeError), g)"
proof -
  have rm: "modules g (target (attrs g n)) \<noteq> None"
    if "n \<in> set (nodes g)" "op (attrs g n) \<in> FXOPCODE_CALL_MODULE" for n
    using res that by (auto simp: resolves_def list_all_iff FXOPCODE_CALL_MODULE_def)
  have f: "filterM force_pred (nodes g) g = (Inr (filter (tunnel_node g) (nodes g)), g)"
  proof -
    have "filter_res (\<lambda>n. if op (attrs g n) \<in> FXOPCODE_CALL_MODULE
       then (case modules g (target (attrs g n)) of
               None \<Rightarrow> Inl AttributeError | Some m \<Rightarrow> Inr (is_EpsTunnel m))
       else Inr False) (nodes g) = Inr (filter (tunnel_node g) (nodes g))"
    proof (rule filter_res_total)
      fix n assume "n \<in> set (nodes g)"
      then show "(if op (attrs g n) \<in> FXOPCODE_CALL_MODULE
       then (case modules g (target (attrs g n)) of
               None \<Rightarrow> Inl AttributeError | Some m \<Rightarrow> Inr (is_EpsTunnel m))
       else Inr False) = Inr (tunnel_node g n)"
        using rm [of n]
        by (cases "modules g (target (attrs g n))")
           (auto simp add: tunnel_node_def CALL_MODULE_def FXOPCODE_CALL_MODULE_def)
    qed
    then show ?thesis by (simp only: filterM_reads [OF force_pred_run])
  qed
  let ?q = "\<lambda>n. if op (attrs g n) \<in> FXOPCODE_CALL_MODULE
       then (case modules g (target (attrs g n)) of
               None \<Rightarrow> Inl AttributeError
             | Some (EpsTunnel ei eo) \<Rightarrow> torch_all_eq ei eo
             | Some (OtherModule c) \<Rightarrow> Inr False)
       else Inr False"
  have q1: "?q n = (if tunnel_node g n \<and> \<not> comparable g n then Inl RuntimeError
                    else Inr (tunnel_node g n \<and> identity_tunnel g n))"
    if nN: "n \<in> set (nodes g)" for n
  proof (cases "op (attrs g n) \<in> FXOPCODE_CALL_MODULE")
    case False
    then show ?thesis
      by (simp add: tunnel_node_def CALL_MODULE_def FXOPCODE_CALL_MODULE_def)
  next
    case True
    then obtain m where m: "modules g (target (attrs g n)) = Some m"
      using rm [OF nN] by auto
    show ?thesis
    proof (cases m)
      case (EpsTunnel ei eo)
      then show ?thesis
        using True m torch_all_eq_cases [of ei eo]
        by (auto simp add: tunnel_node_def comparable_def identity_tunnel_def
            CALL_MODULE_def FXOPCODE_CALL_MODULE_def)
    next
      case (OtherModule c)
      then show ?thesis
        using True m by (simp add: tunnel_node_def)
    qed
  qed
  have i: "filterM identity_pred (nodes g) g =
             ((if broadcastable g
               then Inr (filter (\<lambda>n. tunnel_node g n \<and> identity_tunnel g n) (nodes g))
               else Inl RuntimeError), g)"
  proof -
    have "filter_res ?q (nodes g) =
       (if \<exists>n\<in>set (nodes g). ?q n = Inl RuntimeError then Inl RuntimeError
        else Inr (filter (\<lambda>n. tunnel_node g n \<and> identity_tunnel g n) (nodes g)))"
      using q1 by (intro filter_res_error) auto
    moreover have "(\<exists>n\<in>set (nodes g). ?q n = Inl RuntimeError) = (\<not> broadcastable g)"
    proof -
      have "(\<exists>n\<in>set (nodes g). ?q n = Inl RuntimeError) =
            (\<exists>n\<in>set (nodes g). tunnel_node g n \<and> \<not> comparable g n)"
        using q1 by (metis (no_types, lifting) Inl_Inr_False)
      then show ?thesis by (auto simp: broadcastable_def list_all_iff)
    qed
    ultimately show ?thesis
      by (subst filterM_reads [OF identity_pred_run]) simp
  qed
  show ?thesis
    by (cases "force self")
       (simp_all add: EpsTunnelRemover_find_def bnd_apply gets_apply ret_apply f i)
qed

lemma remdups_idem: "remdups (remdups xs) = remdups xs"
  by (simp add: distinct_remdups_id)

lemma apply_fail:
  assumes "length (all_input_nodes g (apcore ap)) \<noteq> 1 \<or> length (users g (apcore ap)) \<noteq> 1"
  shows "EpsTunnelRemover_apply ap g = (Inl (AssertionError []), g)"
  using assms
  by (auto simp add: EpsTunnelRemover_apply_def bnd_apply gets_apply ret_apply throw_apply
      py_assert_def all_input_nodes_def users_def remdups_idem)

lemma users_after_replace:
  assumes u: "users g n = [d]" and pn: "p \<noteq> n"
  shows "users (g\<lparr>attrs := (attrs g)
         (d := (attrs g d)\<lparr>args := map (\<lambda>a. if a = n then p else a) (args (attrs g d))\<rparr>),
         modules := ms\<rparr>) n = []"
proof -
  have "set (users g n) = {d}" using u by simp
  then have only: "u \<in> set (nodes g) \<Longrightarrow> n \<in> set (args (attrs g u)) \<Longrightarrow> u = d" for u
    by (auto simp: users_def)
  have "n \<notin> set (map (\<lambda>a. if a = n then p else a) (args (attrs g d)))"
    using pn by auto
  then show ?thesis
    using only by (auto simp: users_def filter_empty_conv)
qed

lemma replace_input_with_run:
  "replace_input_with dn old new g =
     (Inr (), g\<lparr>attrs := (attrs g)
       (dn := (attrs g dn)\<lparr>args := map (\<lambda>a. if a = old then new else a) (args (attrs g dn))\<rparr>)\<rparr>)"
  by (simp add: replace_input_with_def modify_def)

lemma delete_submodule_run:
  "delete_submodule t g = (Inr (modules g t \<noteq> None), g\<lparr>modules := (modules g)(t := None)\<rparr>)"
  by (cases "modules g t")
     (simp_all add: delete_submodule_def bnd_def gets_def ret_def modify_def fun_upd_idem)

lemma erase_node_run:
  "erase_node n g =
     (if users g n \<noteq> [] then (Inl RuntimeError, g)
      else (Inr (), g\<lparr>nodes := removeAll n (nodes g),
                      attrs := (attrs g)(n := (attrs g n)\<lparr>args := []\<rparr>)\<rparr>))"
  by (simp add: erase_node_def bnd_def gets_def throw_def modify_def)

lemma user_not_self:
  assumes i: "all_input_nodes g n = [p]" and u: "users g n = [d]" and pn: "p \<noteq> n"
  shows "d \<noteq> n"
proof -
  have "d \<in> set (users g n)" using u by simp
  then have "n \<in> set (args (attrs g d))" by (simp add: users_def)
  moreover have "set (args (attrs g n)) = {p}"
    using i by (metis all_input_nodes_def list.simps(15) empty_set set_remdups)
  ultimately show ?thesis using pn by auto
qed

lemma apply_ok:
  assumes i: "all_input_nodes g (apcore ap) = [p]"
    and u: "users g (apcore ap) = [d]"
    and pn: "p \<noteq> apcore ap"
  shows "EpsTunnelRemover_apply ap g = (Inr (), spliced g (apcore ap) p d)"
proof -
  let ?n = "apcore ap"
  let ?A = "(attrs g)
         (d := (attrs g d)\<lparr>args := map (\<lambda>a. if a = ?n then p else a) (args (attrs g d))\<rparr>)"
  define g1 where "g1 = g\<lparr>attrs := ?A\<rparr>"
  define g2 where "g2 = g1\<lparr>modules := (modules g1)(target (attrs g ?n) := None)\<rparr>"
  have i': "remdups (all_input_nodes g ?n) = [p]"
    using i by (simp add: all_input_nodes_def)
  have u': "remdups (users g ?n) = [d]"
    using u by (simp add: users_def)
  have r1: "replace_input_with d ?n p g = (Inr (), g1)"
    by (simp add: replace_input_with_run g1_def)
  have t1: "target (attrs g1 ?n) = target (attrs g ?n)"
    by (simp add: g1_def)
  have r2: "delete_submodule (target (attrs g ?n)) g1 =
              (Inr (modules g1 (target (attrs g ?n)) \<noteq> None), g2)"
    by (simp add: delete_submodule_run g2_def)
  have e: "users g2 ?n = []"
    using users_after_replace [OF u pn] by (simp add: g2_def g1_def)
  have r3: "erase_node ?n g2 =
              (Inr (), g2\<lparr>nodes := removeAll ?n (nodes g2),
                        attrs := (attrs g2)(?n := (attrs g2 ?n)\<lparr>args := []\<rparr>)\<rparr>)"
    by (simp add: erase_node_run e)
  have dn: "d \<noteq> ?n" using i u pn by (rule user_not_self)
  have fin: "g2\<lparr>nodes := removeAll ?n (nodes g2),
               attrs := (attrs g2)(?n := (attrs g2 ?n)\<lparr>args := []\<rparr>)\<rparr> = spliced g ?n p d"
    using dn by (simp add: g2_def g1_def spliced_def)
  show ?thesis
    by (simp add: EpsTunnelRemover_apply_def bnd_apply gets_apply ret_apply py_assert_def
        i' u' r1 t1 r2 r3 fin)
qed

lemma length_removeAll_distinct:
  "distinct xs \<Longrightarrow> x \<in> set xs \<Longrightarrow> Suc (length (removeAll x xs)) = length xs"
  by (induction xs) auto

lemma length_one_conv: "length xs = 1 \<Longrightarrow> \<exists>x. xs = [x]"
  by (cases xs) auto

lemma distinct_all_input_nodes: "distinct (all_input_nodes g n)"
  by (simp add: all_input_nodes_def)

lemma distinct_users: "distinct (users g n)"
  by (simp add: users_def)

subsection \<open>The construct applier\<close>

lemma ones_like_idem: "ones_like (ones_like a) = ones_like a"
  by (simp add: ones_like_def)

lemma ones_like_vec: "ones_like (vec xs) = vec (replicate (length xs) 1)"
  by (simp add: ones_like_def vec_def)

lemma out_one_idem: "out_one (out_one r) = out_one r"
  by (cases r rule: out_one.cases) (simp_all add: ones_like_idem)

lemma in_one_idem: "in_one (in_one r) = in_one r"
  by (cases r rule: in_one.cases) (simp_all add: ones_like_idem)

lemma tunnel_targetD:
  assumes "tunnel_target g t"
  shows "\<exists>ei eo. modules g t = Some (EpsTunnel ei eo)"
proof (cases "modules g t")
  case None
  then show ?thesis using assms by (simp add: tunnel_target_def)
next
  case (Some m)
  then show ?thesis using assms by (cases m) (simp_all add: tunnel_target_def)
qed

lemma set_out_step:
  assumes "modules g t = Some (EpsTunnel ei eo)"
  shows "bnd (get_submodule t) (\<lambda>m. bnd (eps_out m) (\<lambda>eo. set_eps_out t (ones_like eo))) g =
           (Inr (), g\<lparr>modules := (modules g)(t := out_one (modules g t))\<rparr>)"
  using assms
  by (simp add: get_submodule_def set_eps_out_def bnd_def gets_def ret_def modify_def)

lemma set_in_step:
  assumes "modules g t = Some (EpsTunnel ei eo)"
  shows "bnd (get_submodule t) (\<lambda>m. bnd (eps_in m) (\<lambda>ei. set_eps_in t (ones_like ei))) g =
           (Inr (), g\<lparr>modules := (modules g)(t := in_one (modules g t))\<rparr>)"
  using assms
  by (simp add: get_submodule_def set_eps_in_def bnd_def gets_def ret_def modify_def)

lemma out_loop_run:
  assumes "\<forall>t\<in>set ts. tunnel_target g t"
  shows "forM ts (\<lambda>t. bnd (get_submodule t)
                   (\<lambda>m. bnd (eps_out m) (\<lambda>eo. set_eps_out t (ones_like eo)))) g =
           (Inr (), g\<lparr>modules := out_ones ts (modules g)\<rparr>)"
  using assms
proof (induction ts arbitrary: g)
  case Nil
  show ?case by (simp add: ret_def out_ones_def)
next
  case (Cons t ts)
  obtain ei eo where m: "modules g t = Some (EpsTunnel ei eo)"
    using Cons.prems tunnel_targetD by (meson list.set_intros(1))
  let ?g1 = "g\<lparr>modules := (modules g)(t := out_one (modules g t))\<rparr>"
  have pres: "\<forall>t'\<in>set ts. tunnel_target ?g1 t'"
    using Cons.prems m by (auto simp: tunnel_target_def)
  have ih: "forM ts (\<lambda>t. bnd (get_submodule t)
                   (\<lambda>m. bnd (eps_out m) (\<lambda>eo. set_eps_out t (ones_like eo)))) ?g1 =
           (Inr (), ?g1\<lparr>modules := out_ones ts (modules ?g1)\<rparr>)"
    by (rule Cons.IH [OF pres])
  have eq: "out_ones ts (modules ?g1) = out_ones (t # ts) (modules g)"
    by (rule ext) (simp add: out_ones_def out_one_idem)
  show ?case
    by (rule forM_step [where ?g1.0 = ?g1]) (simp_all only: set_out_step [OF m] ih eq, simp)
qed

lemma in_loop_run:
  assumes "\<forall>t\<in>set ts. tunnel_target g t"
  shows "forM ts (\<lambda>t. bnd (get_submodule t)
                   (\<lambda>m. bnd (eps_in m) (\<lambda>ei. set_eps_in t (ones_like ei)))) g =
           (Inr (), g\<lparr>modules := in_ones ts (modules g)\<rparr>)"
  using assms
proof (induction ts arbitrary: g)
  case Nil
  show ?case by (simp add: ret_def in_ones_def)
next
  case (Cons t ts)
  obtain ei eo where m: "modules g t = Some (EpsTunnel ei eo)"
    using Cons.prems tunnel_targetD by (meson list.set_intros(1))
  let ?g1 = "g\<lparr>modules := (modules g)(t := in_one (modules g t))\<rparr>"
  have pres: "\<forall>t'\<in>set ts. tunnel_target ?g1 t'"
    using Cons.prems m by (auto simp: tunnel_target_def)
  have ih: "forM ts (\<lambda>t. bnd (get_submodule t)
                   (\<lambda>m. bnd (eps_in m) (\<lambda>ei. set_eps_in t (ones_like ei)))) ?g1 =
           (Inr (), ?g1\<lparr>modules := in_ones ts (modules ?g1)\<rparr>)"
    by (rule Cons.IH [OF pres])
  have eq: "in_ones ts (modules ?g1) = in_ones (t # ts) (modules g)"
    by (rule ext) (simp add: in_ones_def in_one_idem)
  show ?case
    by (rule forM_step [where ?g1.0 = ?g1]) (simp_all only: set_in_step [OF m] ih eq, simp)
qed

lemma print_loop_run: "print_loop ns g = (Inr (), g)"
  by (induction ns) (simp_all add: print_loop_def bnd_def gets_def ret_def)

lemma submodules_of_run:
  assumes "\<forall>n\<in>set ns. tunnel_target g (target (attrs g n))"
  shows "submodules_of ns g = (Inr (map (\<lambda>n. target (attrs g n)) ns), g)"
  using assms
proof (induction ns)
  case Nil
  show ?case by (simp add: submodules_of_def ret_def)
next
  case (Cons n ns)
  obtain ei eo where m: "modules g (target (attrs g n)) = Some (EpsTunnel ei eo)"
    using Cons.prems tunnel_targetD by (meson list.set_intros(1))
  have "submodules_of ns g = (Inr (map (\<lambda>n. target (attrs g n)) ns), g)"
    using Cons by simp
  then show ?case
    using m by (simp add: submodules_of_def bnd_apply gets_apply ret_apply get_submodule_def)
qed

lemma tunnel_target_out_ones:
  "tunnel_target (g\<lparr>modules := out_ones ts (modules g)\<rparr>) t = tunnel_target g t"
proof (cases "modules g t")
  case None
  then show ?thesis by (simp add: tunnel_target_def out_ones_def)
next
  case (Some m)
  then show ?thesis by (cases m) (simp_all add: tunnel_target_def out_ones_def)
qed

lemma construct_apply_run:
  assumes "\<forall>n\<in>set (backward ap @ forward ap). tunnel_target g (target (attrs g n))"
  shows "EpsTunnelConstructApplier_apply ap g = (Inr (), reconciled g ap)"
proof -
  let ?B = "map (\<lambda>n. target (attrs g n)) (backward ap)"
  let ?F = "map (\<lambda>n. target (attrs g n)) (forward ap)"
  define g1 where "g1 = g\<lparr>modules := out_ones ?B (modules g)\<rparr>"
  have b: "\<forall>n\<in>set (backward ap). tunnel_target g (target (attrs g n))"
    and f: "\<forall>n\<in>set (forward ap). tunnel_target g (target (attrs g n))"
    using assms by auto
  have s1: "submodules_of (backward ap) g = (Inr ?B, g)"
    by (rule submodules_of_run [OF b])
  have l1: "forM ?B (\<lambda>t. bnd (get_submodule t)
                   (\<lambda>m. bnd (eps_out m) (\<lambda>eo. set_eps_out t (ones_like eo)))) g = (Inr (), g1)"
    unfolding g1_def using b by (intro out_loop_run) simp
  have a1: "attrs g1 = attrs g" by (simp add: g1_def)
  have f1: "\<forall>n\<in>set (forward ap). tunnel_target g1 (target (attrs g1 n))"
    using f by (simp add: g1_def tunnel_target_out_ones)
  have s2: "submodules_of (forward ap) g1 = (Inr ?F, g1)"
    using submodules_of_run [OF f1] by (simp add: a1)
  have l2: "forM ?F (\<lambda>t. bnd (get_submodule t)
                   (\<lambda>m. bnd (eps_in m) (\<lambda>ei. set_eps_in t (ones_like ei)))) g1 =
              (Inr (), g1\<lparr>modules := in_ones ?F (modules g1)\<rparr>)"
    using f1 by (intro in_loop_run) (simp add: a1)
  have fin: "g1\<lparr>modules := in_ones ?F (modules g1)\<rparr> = reconciled g ap"
    by (simp add: g1_def reconciled_def)
  show ?thesis
    by (simp add: EpsTunnelConstructApplier_apply_def bnd_apply print_loop_run s1 l1 s2 l2 fin)
qed

lemma opt_eps_out_one [simp]:
  "opt_eps_in (out_one r) = opt_eps_in r"
  "opt_eps_out (out_one r) = map_option ones_like (opt_eps_out r)"
  by (cases r rule: out_one.cases; simp)+

lemma opt_eps_in_one [simp]:
  "opt_eps_in (in_one r) = map_option ones_like (opt_eps_in r)"
  "opt_eps_out (in_one r) = opt_eps_out r"
  by (cases r rule: in_one.cases; simp)+

lemma map_option_ones_like_idem:
  "map_option ones_like (map_option ones_like r) = map_option ones_like r"
  by (cases r) (simp_all add: ones_like_idem)

subsection \<open>The constructor of the activation\<close>

lemma assert_param_valid_run:
  assumes "valid_values \<noteq> []"
  shows "\<exists>msg. assert_param_valid cls v param_name valid_values =
           (if v \<in> set valid_values then Inr () else Inl (AssertionError msg))"
  using assms by (simp add: assert_param_valid_def expected_str_def Let_def)

lemma init_ok:
  assumes "lower ak \<in> set valid_act_kinds" and "lower ic \<in> set valid_init_clips"
  shows "PACTUnsignedAct_init lower n ic lc ak lk ns =
     Inr \<lparr>n_levels = n, clip_hi = vec [1], clip_hi_requires_grad = lc,
          act_kind = lower ak, init_clip = lower ic, nb_std = ns,
          leaky = lk, started = False,
          max_stat = vec [0], min_stat = vec [0],
          running_mean = vec [0], running_var = vec [1]\<rparr>"
proof -
  have a: "assert_param_valid ''PACTUnsignedAct'' (lower ak) ''act_kind''
             [''relu'', ''relu6'', ''leaky_relu''] = Inr ()"
    using assms(1)
      assert_param_valid_run [of "[''relu'', ''relu6'', ''leaky_relu'']" "''PACTUnsignedAct''"
        "lower ak" "''act_kind''"]
    by (auto simp add: valid_act_kinds_def)
  have b: "assert_param_valid ''PACTUnsignedAct'' (lower ic) ''init_clip''
             [''max'', ''std'', ''const''] = Inr ()"
    using assms(2)
      assert_param_valid_run [of "[''max'', ''std'', ''const'']" "''PACTUnsignedAct''"
        "lower ic" "''init_clip''"]
    by (auto simp add: valid_init_clips_def)
  show ?thesis
    by (simp add: PACTUnsignedAct_init_def Let_def a b)
qed

lemma init_fail:
  assumes "lower ak \<notin> set valid_act_kinds \<or> lower ic \<notin> set valid_init_clips"
  shows "\<exists>msg. PACTUnsignedAct_init lower n ic lc ak lk ns = Inl (AssertionError msg)"
proof (cases "lower ak \<in> set valid_act_kinds")
  case False
  then have "\<exists>msg. assert_param_valid ''PACTUnsignedAct'' (lower ak) ''act_kind''
             [''relu'', ''relu6'', ''leaky_relu''] = Inl (AssertionError msg)"
    using assert_param_valid_run [of "[''relu'', ''relu6'', ''leaky_relu'']" "''PACTUnsignedAct''"
        "lower ak" "''act_kind''"]
    by (auto simp add: valid_act_kinds_def)
  then show ?thesis
    by (auto simp add: PACTUnsignedAct_init_def Let_def)
next
  case True
  then have a: "assert_param_valid ''PACTUnsignedAct'' (lower ak) ''act_kind''
             [''relu'', ''relu6'', ''leaky_relu''] = Inr ()"
    using assert_param_valid_run [of "[''relu'', ''relu6'', ''leaky_relu'']" "''PACTUnsignedAct''"
        "lower ak" "''act_kind''"]
    by (auto simp add: valid_act_kinds_def)
  from True assms have "lower ic \<notin> set valid_init_clips" by simp
  then have "\<exists>msg. assert_param_valid ''PACTUnsignedAct'' (lower ic) ''init_clip''
             [''max'', ''std'', ''const''] = Inl (AssertionError msg)"
    using assert_param_valid_run [of "[''max'', ''std'', ''const'']" "''PACTUnsignedAct''"
        "lower ic" "''init_clip''"]
    by (auto simp add: valid_init_clips_def)
  then show ?thesis
    by (auto simp add: PACTUnsignedAct_init_def Let_def a)
qed

lemma ascii_lower_examples:
  "ascii_lower ''ReLU'' = ''relu''" "ascii_lower ''MAX'' = ''max''"
  "ascii_lower ''gelu'' = ''gelu''" "ascii_lower ''relu'' = ''relu''"
  "ascii_lower ''max'' = ''max''"
  by (simp_all add: ascii_lower_def ascii_lower_char_def)

subsection \<open>The example graphs\<close>

lemma elems_vec: "elems (vec xs) = xs"
  by (simp add: vec_def)

lemma torch_all_eq_examples:
  "torch_all_eq (vec [1 / 2]) (vec [1 / 2]) = Inr True"
  "torch_all_eq (vec [1]) (vec [1]) = Inr True"
  "torch_all_eq (vec [1 / 4]) (vec [1 / 2]) = Inr False"
  "torch_all_eq (vec [1 / 2]) (vec [1 / 2, 1 / 2, 1 / 2]) = Inr True"
  "torch_all_eq (vec [1 / 2, 1 / 2]) (vec [1 / 2, 1 / 2, 1 / 2]) = Inl RuntimeError"
  by (simp_all add: torch_all_eq_def vec_def pad_shape_def eval_nat_numeral)

lemma resolves_graph_A: "resolves graph_A"
  by (simp add: resolves_def graph_A_def)

lemma resolves_graph_B: "resolves graph_B"
  by (simp add: resolves_def graph_B_def)

lemma resolves_graph_C: "resolves graph_C"
  by (simp add: resolves_def graph_C_def)

lemma resolves_graph_D: "resolves graph_D"
  by (simp add: resolves_def graph_D_def)

lemma resolves_graph_S: "resolves graph_S"
  by (simp add: resolves_def graph_S_def)

lemma resolves_graph_N: "resolves graph_N"
  by (simp add: resolves_def graph_N_def)

lemma broadcastable_graph_A: "broadcastable graph_A"
  by (simp add: broadcastable_def comparable_def graph_A_def tunnel_node_def
      torch_all_eq_examples)

lemma broadcastable_graph_B: "broadcastable graph_B"
  by (simp add: broadcastable_def comparable_def graph_B_def tunnel_node_def
      torch_all_eq_examples)

lemma broadcastable_graph_C: "broadcastable graph_C"
  by (simp add: broadcastable_def comparable_def graph_C_def tunnel_node_def
      torch_all_eq_examples)

lemma broadcastable_graph_D: "broadcastable graph_D"
  by (simp add: broadcastable_def comparable_def graph_D_def tunnel_node_def
      torch_all_eq_examples)

lemma broadcastable_graph_S: "broadcastable graph_S"
  by (simp add: broadcastable_def comparable_def graph_S_def tunnel_node_def
      torch_all_eq_examples)

lemma not_broadcastable_graph_N: "\<not> broadcastable graph_N"
  by (simp add: broadcastable_def comparable_def graph_N_def tunnel_node_def
      torch_all_eq_examples CALL_MODULE_def)

lemma single_input_graph_A: "single_input graph_A"
  by (simp add: single_input_def graph_A_def tunnel_node_def all_input_nodes_def CALL_MODULE_def)

lemma single_input_graph_B: "single_input graph_B"
  by (simp add: single_input_def graph_B_def tunnel_node_def all_input_nodes_def CALL_MODULE_def)

lemma single_input_graph_S: "single_input graph_S"
  by (simp add: single_input_def graph_S_def tunnel_node_def all_input_nodes_def CALL_MODULE_def)

lemma candidates_graph_A: "candidates graph_A = []"
  by (simp add: candidates_def graph_A_def tunnel_node_def identity_tunnel_def
      integerised_placeholder_def sole_consumer_is_output_def all_input_nodes_def users_def
      CALL_MODULE_def torch_all_eq_examples)

lemma candidates_graph_B: "candidates graph_B = [1]"
  by (simp add: candidates_def graph_B_def tunnel_node_def identity_tunnel_def
      integerised_placeholder_def sole_consumer_is_output_def all_input_nodes_def users_def
      CALL_MODULE_def torch_all_eq_examples)

lemma candidates_graph_S: "candidates graph_S = [1]"
  by (simp add: candidates_def graph_S_def tunnel_node_def identity_tunnel_def
      integerised_placeholder_def sole_consumer_is_output_def all_input_nodes_def users_def
      CALL_MODULE_def torch_all_eq_examples elems_vec)

lemma find_graph_B: "fst (EpsTunnelRemoverFinder_find graph_B) = Inr [EpsTunnelNode 1]"
  using find_run [OF resolves_graph_B broadcastable_graph_B] single_input_graph_B
  by (auto simp: candidates_graph_B single_input_def list_all_iff)

lemma graph_B_ap_B:
  "all_input_nodes graph_B (apcore ap_B) = [0]" "users graph_B (apcore ap_B) = [2]"
  "apcore ap_B \<in> set (nodes graph_B)" "distinct (nodes graph_B)" "0 \<noteq> apcore ap_B"
  by (simp_all add: graph_B_def ap_B_def all_input_nodes_def users_def)

lemma tunnels_ap_R:
  "\<forall>n\<in>set (backward ap_R @ forward ap_R). tunnel_target graph_R (target (attrs graph_R n))"
  by (simp add: ap_R_def graph_R_def tunnel_target_def)

lemma tunnels_ap_R_outer:
  "\<forall>n\<in>set (backward ap_R_outer @ forward ap_R_outer). tunnel_target graph_R (target (attrs graph_R n))"
  by (simp add: ap_R_outer_def graph_R_def tunnel_target_def)

section \<open>The claims\<close>

subsection \<open>What the finder selects\<close>

text \<open>
  Claim C1, as amended. On a graph whose call-module targets all name a submodule, whose
  tunnels all have tensors that can be broadcast together and whose tunnel nodes all have
  exactly one input node, \<^verbatim>\<open>EpsTunnelRemoverFinder.find\<close> returns, and it returns
  exactly one application point for every tunnel node that is an identity tunnel or an
  integerised placeholder and whose sole consumer is not the output node: no node is
  referenced twice, and the referenced nodes are exactly those. Both predicates are tried
  on the same materialised list of tunnel nodes.
\<close>

theorem find_selects:
  assumes "resolves g" and "broadcastable g" and "single_input g"
  shows "\<exists>aps. fst (EpsTunnelRemoverFinder_find g) = Inr aps \<and>
           distinct (map ap_node aps) \<and>
           set (map ap_node aps) =
             {n \<in> set (nodes g). tunnel_node g n \<and>
                (identity_tunnel g n \<or> integerised_placeholder g n) \<and>
                \<not> sole_consumer_is_output g n}"
proof -
  have "\<not> (\<exists>n\<in>set (nodes g). tunnel_node g n \<and> length (all_input_nodes g n) \<noteq> 1)"
    using assms(3) by (auto simp: single_input_def list_all_iff)
  then have "fst (EpsTunnelRemoverFinder_find g) = Inr (map EpsTunnelNode (candidates g))"
    using find_run [OF assms(1,2)] by simp
  moreover have "distinct (map ap_node (map EpsTunnelNode (candidates g)))"
    by (simp only: ap_node_map distinct_candidates)
  moreover have "set (map ap_node (map EpsTunnelNode (candidates g))) =
             {n \<in> set (nodes g). tunnel_node g n \<and>
                (identity_tunnel g n \<or> integerised_placeholder g n) \<and>
                \<not> sole_consumer_is_output g n}"
    by (simp only: ap_node_map set_candidates)
  ultimately show ?thesis by blast
qed

text \<open>
  In \<open>graph_S\<close> the scalar \<^verbatim>\<open>eps_in\<close> is broadcast against the three channels of
  \<^verbatim>\<open>eps_out\<close>, and the tunnel is selected.
\<close>

theorem find_selects_witness:
  "resolves graph_S \<and> broadcastable graph_S \<and> single_input graph_S \<and>
   (\<exists>aps. fst (EpsTunnelRemoverFinder_find graph_S) = Inr aps \<and>
      distinct (map ap_node aps) \<and> set (map ap_node aps) = {1})"
proof -
  have "{n \<in> set (nodes graph_S). tunnel_node graph_S n \<and>
          (identity_tunnel graph_S n \<or> integerised_placeholder graph_S n) \<and>
          \<not> sole_consumer_is_output graph_S n} = {1}"
    by (simp only: set_candidates [symmetric] candidates_graph_S) simp
  then show ?thesis
    using find_selects [OF resolves_graph_S broadcastable_graph_S single_input_graph_S]
      resolves_graph_S broadcastable_graph_S single_input_graph_S
    by simp
qed

text \<open>
  The claim as it was stated fails on \<open>graph_A\<close>: its tunnel is a call-module node
  that satisfies the identity predicate, and the finder returns no application point,
  because the only user of the tunnel is the output node.
\<close>

theorem find_selects_counterexample:
  "1 \<in> set (nodes graph_A) \<and> tunnel_node graph_A 1 \<and> identity_tunnel graph_A 1 \<and>
   fst (EpsTunnelRemoverFinder_find graph_A) = Inr []"
proof -
  have "fst (EpsTunnelRemoverFinder_find graph_A) = Inr []"
    using find_run [OF resolves_graph_A broadcastable_graph_A] single_input_graph_A
    by (auto simp: candidates_graph_A single_input_def list_all_iff)
  then show ?thesis
    by (simp add: graph_A_def tunnel_node_def identity_tunnel_def CALL_MODULE_def
        torch_all_eq_examples)
qed

subsection \<open>Tunnels next to the output\<close>

text \<open>
  Claim C2, as amended. No application point that \<^verbatim>\<open>EpsTunnelRemoverFinder.find\<close>
  returns references a tunnel node whose sole consumer is the output node.
\<close>

theorem finder_excludes_output_adjacent:
  assumes "fst (EpsTunnelRemoverFinder_find g) = Inr aps" and "ap \<in> set aps"
  shows "\<not> sole_consumer_is_output g (ap_node ap)"
proof -
  have res: "resolves g" and bc: "broadcastable g"
    using find_Inr_resolves [OF assms(1)] by simp_all
  have "aps = map EpsTunnelNode (candidates g)"
    using assms(1) find_run [OF res bc] by (auto split: if_splits)
  then have "ap_node ap \<in> set (candidates g)"
    using assms(2) by auto
  then show ?thesis by (simp add: set_candidates)
qed

theorem finder_excludes_output_adjacent_witness:
  "fst (EpsTunnelRemoverFinder_find graph_B) = Inr [EpsTunnelNode 1] \<and>
   EpsTunnelNode 1 \<in> set [EpsTunnelNode 1] \<and>
   \<not> sole_consumer_is_output graph_B (ap_node (EpsTunnelNode 1))"
proof -
  have f: "fst (EpsTunnelRemoverFinder_find graph_B) = Inr [EpsTunnelNode 1]"
    by (rule find_graph_B)
  have m: "EpsTunnelNode 1 \<in> set [EpsTunnelNode 1]" by simp
  show ?thesis
    using f m finder_excludes_output_adjacent [OF f m] by blast
qed

text \<open>
  \<^verbatim>\<open>EpsTunnelRemover.find\<close> has no such exclusion: on \<open>graph_A\<close>, whose tunnel has
  the output node as its sole consumer, it returns that tunnel with and without force.
\<close>

theorem remover_find_output_adjacent_counterexample:
  "sole_consumer_is_output graph_A 1 \<and>
   fst (EpsTunnelRemover_find (EpsTunnelRemover_init False) graph_A) =
     Inr [\<lparr>rewriter = ''EpsTunnelRemover'', apcore = 1\<rparr>] \<and>
   fst (EpsTunnelRemover_find (EpsTunnelRemover_init True) graph_A) =
     Inr [\<lparr>rewriter = ''EpsTunnelRemover'', apcore = 1\<rparr>]"
  by (simp add: remover_find_run [OF resolves_graph_A] EpsTunnelRemover_init_def
        broadcastable_graph_A)
     (simp add: graph_A_def tunnel_node_def identity_tunnel_def CALL_MODULE_def
        sole_consumer_is_output_def users_def torch_all_eq_examples)

subsection \<open>Checking a batch of application points\<close>

text \<open>
  Claim C3. \<^verbatim>\<open>check_aps_commutativity\<close> accepts a list of application points exactly
  when no two of them reference the same node (lemma \<open>check_aps_commutativity_iff\<close>).
  \<^verbatim>\<open>EpsTunnelRemover._check_aps\<close> does nothing: given the same application point
  twice it returns without raising and leaves the graph as it was, while
  \<^verbatim>\<open>check_aps_commutativity\<close> rejects two application points on one node.
\<close>

theorem check_aps_accepts_overlap:
  "fst (EpsTunnelRemover_check_aps [ap_B, ap_B] graph_B) = Inr () \<and>
   snd (EpsTunnelRemover_check_aps [ap_B, ap_B] graph_B) = graph_B \<and>
   \<not> distinct (map apcore [ap_B, ap_B]) \<and>
   \<not> check_aps_commutativity [EpsTunnelNode 1, EpsTunnelNode 1]"
  by (simp add: EpsTunnelRemover_check_aps_def ret_def check_aps_commutativity_iff)

subsection \<open>Splicing a tunnel out\<close>

text \<open>
  Claim C4. Let the tunnel node \<open>n\<close> of an application point be a node of the graph,
  with exactly one input node \<open>p\<close> and exactly one user \<open>d\<close>, in a graph that lists
  every node once and in which \<open>n\<close> is not its own input (graphs are acyclic). Then
  \<^verbatim>\<open>EpsTunnelRemover._apply\<close> returns, and in the graph it leaves there is one node
  fewer: \<open>n\<close> is erased and the other nodes stay in their order; the arguments of
  \<open>d\<close> that were \<open>n\<close> are \<open>p\<close>, no node object other than \<open>d\<close> and the
  erased \<open>n\<close> has changed, the submodule of \<open>n\<close> is deleted, and no node of the
  graph has \<open>n\<close> among its arguments.
\<close>

theorem apply_splices_tunnel_out:
  assumes "all_input_nodes g (apcore ap) = [p]"
    and "users g (apcore ap) = [d]"
    and "apcore ap \<in> set (nodes g)"
    and "distinct (nodes g)"
    and "p \<noteq> apcore ap"
  shows "fst (EpsTunnelRemover_apply ap g) = Inr () \<and>
         Suc (length (nodes (snd (EpsTunnelRemover_apply ap g)))) = length (nodes g) \<and>
         nodes (snd (EpsTunnelRemover_apply ap g)) = removeAll (apcore ap) (nodes g) \<and>
         args (attrs (snd (EpsTunnelRemover_apply ap g)) d) =
           map (\<lambda>a. if a = apcore ap then p else a) (args (attrs g d)) \<and>
         (\<forall>m. m \<noteq> d \<longrightarrow> m \<noteq> apcore ap \<longrightarrow>
            attrs (snd (EpsTunnelRemover_apply ap g)) m = attrs g m) \<and>
         modules (snd (EpsTunnelRemover_apply ap g)) (target (attrs g (apcore ap))) = None \<and>
         apcore ap \<notin> set (nodes (snd (EpsTunnelRemover_apply ap g))) \<and>
         (\<forall>m \<in> set (nodes (snd (EpsTunnelRemover_apply ap g))).
            apcore ap \<notin> set (args (attrs (snd (EpsTunnelRemover_apply ap g)) m)))"
proof -
  let ?n = "apcore ap"
  have run: "EpsTunnelRemover_apply ap g = (Inr (), spliced g ?n p d)"
    using assms(1,2,5) by (rule apply_ok)
  have len: "Suc (length (nodes (spliced g ?n p d))) = length (nodes g)"
    using assms(3,4) by (simp add: spliced_def length_removeAll_distinct)
  have "set (users g ?n) = {d}" using assms(2) by simp
  then have only: "m \<in> set (nodes g) \<Longrightarrow> ?n \<in> set (args (attrs g m)) \<Longrightarrow> m = d" for m
    by (auto simp: users_def)
  have dn: "d \<noteq> ?n" using assms(1,2,5) by (rule user_not_self)
  have norefs: "\<forall>m \<in> set (nodes (spliced g ?n p d)). ?n \<notin> set (args (attrs (spliced g ?n p d) m))"
    using only assms(5) by (auto simp: spliced_def)
  show ?thesis
    unfolding run fst_conv snd_conv
    using len norefs dn by (simp add: spliced_def)
qed

theorem apply_splices_tunnel_out_witness:
  "all_input_nodes graph_B (apcore ap_B) = [0] \<and> users graph_B (apcore ap_B) = [2] \<and>
   apcore ap_B \<in> set (nodes graph_B) \<and> distinct (nodes graph_B) \<and> 0 \<noteq> apcore ap_B \<and>
   fst (EpsTunnelRemover_apply ap_B graph_B) = Inr () \<and>
   nodes (snd (EpsTunnelRemover_apply ap_B graph_B)) = [0, 2, 3] \<and>
   args (attrs (snd (EpsTunnelRemover_apply ap_B graph_B)) 2) = [0] \<and>
   modules (snd (EpsTunnelRemover_apply ap_B graph_B)) ''tunnel_b'' = None"
proof -
  have t: "target (attrs graph_B (apcore ap_B)) = ''tunnel_b''"
    by (simp add: graph_B_def ap_B_def)
  have r: "removeAll (apcore ap_B) (nodes graph_B) = [0, 2, 3]"
    by (simp add: graph_B_def ap_B_def)
  have a: "map (\<lambda>a. if a = apcore ap_B then 0 else a) (args (attrs graph_B 2)) = [0]"
    by (simp add: graph_B_def ap_B_def)
  show ?thesis
    using apply_splices_tunnel_out [OF graph_B_ap_B] graph_B_ap_B
    by (simp only: t r a) simp
qed

subsection \<open>Reconciling a construct\<close>

text \<open>
  Claim C5, as amended. When every node of the construct targets a tunnel,
  \<^verbatim>\<open>EpsTunnelConstructApplier._apply\<close> returns and leaves the nodes of the graph and
  their attributes as they were; \<^verbatim>\<open>eps_out\<close> of every tunnel targeted from
  \<^verbatim>\<open>backward\<close> and \<^verbatim>\<open>eps_in\<close> of every tunnel targeted from \<^verbatim>\<open>forward\<close>
  are all ones, in their former shape; \<^verbatim>\<open>eps_in\<close> of a backward tunnel that is not
  also targeted from \<^verbatim>\<open>forward\<close>, \<^verbatim>\<open>eps_out\<close> of a forward tunnel that is not
  also targeted from \<^verbatim>\<open>backward\<close>, and every submodule the construct does not
  target are unchanged.
\<close>

theorem construct_apply_reconciles:
  assumes "\<forall>n\<in>set (backward ap @ forward ap). tunnel_target g (target (attrs g n))"
  shows "fst (EpsTunnelConstructApplier_apply ap g) = Inr () \<and>
         nodes (snd (EpsTunnelConstructApplier_apply ap g)) = nodes g \<and>
         attrs (snd (EpsTunnelConstructApplier_apply ap g)) = attrs g \<and>
         (\<forall>n\<in>set (backward ap).
            the_eps_out (snd (EpsTunnelConstructApplier_apply ap g)) (target (attrs g n)) =
              map_option ones_like (the_eps_out g (target (attrs g n)))) \<and>
         (\<forall>n\<in>set (forward ap).
            the_eps_in (snd (EpsTunnelConstructApplier_apply ap g)) (target (attrs g n)) =
              map_option ones_like (the_eps_in g (target (attrs g n)))) \<and>
         (\<forall>n\<in>set (backward ap).
            target (attrs g n) \<notin> (\<lambda>m. target (attrs g m)) ` set (forward ap) \<longrightarrow>
            the_eps_in (snd (EpsTunnelConstructApplier_apply ap g)) (target (attrs g n)) =
              the_eps_in g (target (attrs g n))) \<and>
         (\<forall>n\<in>set (forward ap).
            target (attrs g n) \<notin> (\<lambda>m. target (attrs g m)) ` set (backward ap) \<longrightarrow>
            the_eps_out (snd (EpsTunnelConstructApplier_apply ap g)) (target (attrs g n)) =
              the_eps_out g (target (attrs g n))) \<and>
         (\<forall>t. t \<notin> (\<lambda>m. target (attrs g m)) ` set (backward ap @ forward ap) \<longrightarrow>
            modules (snd (EpsTunnelConstructApplier_apply ap g)) t = modules g t)"
  unfolding construct_apply_run [OF assms] fst_conv snd_conv
  by (auto simp add: reconciled_def in_ones_def out_ones_def the_eps_in_def the_eps_out_def
      map_option_ones_like_idem)

theorem construct_apply_reconciles_witness:
  "list_all (\<lambda>n. tunnel_target graph_R (target (attrs graph_R n))) (backward ap_R_outer @ forward ap_R_outer) \<and>
   fst (EpsTunnelConstructApplier_apply ap_R_outer graph_R) = Inr () \<and>
   nodes (snd (EpsTunnelConstructApplier_apply ap_R_outer graph_R)) = nodes graph_R \<and>
   modules (snd (EpsTunnelConstructApplier_apply ap_R_outer graph_R)) ''tunnel_in'' =
     Some (EpsTunnel (vec [1 / 4]) (vec [1])) \<and>
   modules (snd (EpsTunnelConstructApplier_apply ap_R_outer graph_R)) ''tunnel_out'' =
     Some (EpsTunnel (vec [1]) (vec [1 / 8])) \<and>
   modules (snd (EpsTunnelConstructApplier_apply ap_R_outer graph_R)) ''tunnel_mid'' =
     Some (EpsTunnel (vec [1 / 2]) (vec [1 / 8]))"
proof -
  have h: "list_all (\<lambda>n. tunnel_target graph_R (target (attrs graph_R n)))
             (backward ap_R_outer @ forward ap_R_outer)"
    using tunnels_ap_R_outer by (simp add: list_all_iff)
  have m: "modules (snd (EpsTunnelConstructApplier_apply ap_R_outer graph_R)) ''tunnel_mid'' =
             modules graph_R ''tunnel_mid''"
    using construct_apply_reconciles [OF tunnels_ap_R_outer]
    by (simp add: ap_R_outer_def graph_R_def)
  have r: "snd (EpsTunnelConstructApplier_apply ap_R_outer graph_R) = reconciled graph_R ap_R_outer"
    by (simp add: construct_apply_run [OF tunnels_ap_R_outer])
  have "fst (EpsTunnelConstructApplier_apply ap_R_outer graph_R) = Inr ()"
    by (simp add: construct_apply_run [OF tunnels_ap_R_outer])
  moreover have "modules (reconciled graph_R ap_R_outer) ''tunnel_in'' = Some (EpsTunnel (vec [1 / 4]) (vec [1]))"
    "modules (reconciled graph_R ap_R_outer) ''tunnel_out'' = Some (EpsTunnel (vec [1]) (vec [1 / 8]))"
    "nodes (reconciled graph_R ap_R_outer) = nodes graph_R"
    by (simp_all add: reconciled_def ap_R_outer_def graph_R_def in_ones_def out_ones_def ones_like_vec)
  ultimately show ?thesis
    using h m r by (simp add: graph_R_def)
qed

text \<open>
  The claim as it was stated fails when a tunnel is targeted from both tuples: in
  \<open>graph_R\<close> the middle tunnel is a backward tunnel, and its \<^verbatim>\<open>eps_in\<close> changes
  from one half to one.
\<close>

theorem construct_apply_frame_counterexample:
  "3 \<in> set (backward ap_R) \<and> target (attrs graph_R 3) = ''tunnel_mid'' \<and>
   the_eps_in graph_R ''tunnel_mid'' = Some (vec [1 / 2]) \<and>
   the_eps_in (snd (EpsTunnelConstructApplier_apply ap_R graph_R)) ''tunnel_mid'' = Some (vec [1])"
proof -
  have "snd (EpsTunnelConstructApplier_apply ap_R graph_R) = reconciled graph_R ap_R"
    by (simp add: construct_apply_run [OF tunnels_ap_R])
  moreover have "the_eps_in (reconciled graph_R ap_R) ''tunnel_mid'' = Some (vec [1])"
    by (simp add: reconciled_def ap_R_def graph_R_def in_ones_def out_ones_def ones_like_vec
        the_eps_in_def)
  ultimately show ?thesis
    by (simp add: ap_R_def graph_R_def the_eps_in_def)
qed

subsection \<open>When splicing fails\<close>

text \<open>
  Claim C6. For a tunnel node that is not its own input (graphs are acyclic),
  \<^verbatim>\<open>EpsTunnelRemover._apply\<close> raises exactly when the number of distinct input nodes
  of the tunnel node or the number of its distinct users differs from one, and when it
  raises the graph is as it was before the call.
\<close>

theorem apply_fails_iff:
  assumes "apcore ap \<notin> set (args (attrs g (apcore ap)))"
  shows "((\<exists>e. fst (EpsTunnelRemover_apply ap g) = Inl e) =
            (card (set (all_input_nodes g (apcore ap))) \<noteq> 1 \<or>
             card (set (users g (apcore ap))) \<noteq> 1)) \<and>
         ((\<exists>e. fst (EpsTunnelRemover_apply ap g) = Inl e) \<longrightarrow>
            snd (EpsTunnelRemover_apply ap g) = g)"
proof -
  let ?n = "apcore ap"
  have c1: "card (set (all_input_nodes g ?n)) = length (all_input_nodes g ?n)"
    by (rule distinct_card) (rule distinct_all_input_nodes)
  have c2: "card (set (users g ?n)) = length (users g ?n)"
    by (rule distinct_card) (rule distinct_users)
  show ?thesis
  proof (cases "length (all_input_nodes g ?n) \<noteq> 1 \<or> length (users g ?n) \<noteq> 1")
    case True
    then have "EpsTunnelRemover_apply ap g = (Inl (AssertionError []), g)"
      by (rule apply_fail)
    then show ?thesis using True c1 c2 by simp
  next
    case False
    then obtain p d where pd: "all_input_nodes g ?n = [p]" "users g ?n = [d]"
      using length_one_conv by blast
    have "p \<in> set (args (attrs g ?n))"
      using pd(1) by (metis all_input_nodes_def list.set_intros(1) set_remdups)
    then have "p \<noteq> ?n" using assms by auto
    then have "EpsTunnelRemover_apply ap g = (Inr (), spliced g ?n p d)"
      using pd by (intro apply_ok)
    then show ?thesis using False c1 c2 by simp
  qed
qed

theorem apply_fails_iff_witness:
  "apcore ap_D \<notin> set (args (attrs graph_D (apcore ap_D))) \<and>
   card (set (all_input_nodes graph_D (apcore ap_D))) \<noteq> 1 \<and>
   (\<exists>e. fst (EpsTunnelRemover_apply ap_D graph_D) = Inl e) \<and>
   snd (EpsTunnelRemover_apply ap_D graph_D) = graph_D \<and>
   apcore ap_B \<notin> set (args (attrs graph_B (apcore ap_B))) \<and>
   card (set (all_input_nodes graph_B (apcore ap_B))) = 1 \<and>
   card (set (users graph_B (apcore ap_B))) = 1 \<and>
   fst (EpsTunnelRemover_apply ap_B graph_B) = Inr ()"
proof -
  have d: "apcore ap_D \<notin> set (args (attrs graph_D (apcore ap_D)))"
    by (simp add: graph_D_def ap_D_def)
  have dc: "card (set (all_input_nodes graph_D (apcore ap_D))) \<noteq> 1"
    by (simp add: graph_D_def ap_D_def all_input_nodes_def)
  have b: "apcore ap_B \<notin> set (args (attrs graph_B (apcore ap_B)))"
    by (simp add: graph_B_def ap_B_def)
  have bc: "card (set (all_input_nodes graph_B (apcore ap_B))) = 1"
    "card (set (users graph_B (apcore ap_B))) = 1"
    by (simp_all add: graph_B_ap_B)
  have nb: "\<not> (\<exists>e. fst (EpsTunnelRemover_apply ap_B graph_B) = Inl e)"
    using apply_fails_iff [OF b] bc by simp
  then have "fst (EpsTunnelRemover_apply ap_B graph_B) = Inr ()"
    by (cases "fst (EpsTunnelRemover_apply ap_B graph_B)") auto
  then show ?thesis
    using apply_fails_iff [OF d] d dc b bc by simp
qed

subsection \<open>The two modes of the tunnel remover\<close>

text \<open>
  Claim C7, as amended. On a graph whose call-module targets all name a submodule,
  \<^verbatim>\<open>EpsTunnelRemover.find\<close> with force returns, in the order of the graph, exactly the
  tunnel nodes, whatever their tensors hold. Without force it returns exactly the tunnel
  nodes whose \<^verbatim>\<open>eps_in\<close> and \<^verbatim>\<open>eps_out\<close>, broadcast together, agree entry by
  entry, provided the tensors of every tunnel can be broadcast together; when those of
  some tunnel cannot, it raises the error of the comparison.
\<close>

theorem remover_find_modes:
  assumes "resolves g"
  shows "fst (EpsTunnelRemover_find (EpsTunnelRemover_init True) g) =
           Inr (map (\<lambda>a. \<lparr>rewriter = ''EpsTunnelRemover'', apcore = a\<rparr>)
                  (filter (tunnel_node g) (nodes g))) \<and>
         fst (EpsTunnelRemover_find (EpsTunnelRemover_init False) g) =
           (if broadcastable g
            then Inr (map (\<lambda>a. \<lparr>rewriter = ''EpsTunnelRemover'', apcore = a\<rparr>)
                       (filter (\<lambda>n. tunnel_node g n \<and> identity_tunnel g n) (nodes g)))
            else Inl RuntimeError)"
  by (simp add: remover_find_run [OF assms] EpsTunnelRemover_init_def)

theorem remover_find_modes_witness:
  "resolves graph_C \<and> broadcastable graph_C \<and>
   fst (EpsTunnelRemover_find (EpsTunnelRemover_init True) graph_C) =
     Inr [\<lparr>rewriter = ''EpsTunnelRemover'', apcore = 1\<rparr>,
          \<lparr>rewriter = ''EpsTunnelRemover'', apcore = 2\<rparr>] \<and>
   fst (EpsTunnelRemover_find (EpsTunnelRemover_init False) graph_C) =
     Inr [\<lparr>rewriter = ''EpsTunnelRemover'', apcore = 2\<rparr>] \<and>
   resolves graph_S \<and> broadcastable graph_S \<and>
   fst (EpsTunnelRemover_find (EpsTunnelRemover_init False) graph_S) =
     Inr [\<lparr>rewriter = ''EpsTunnelRemover'', apcore = 1\<rparr>]"
  using remover_find_modes [OF resolves_graph_C] remover_find_modes [OF resolves_graph_S]
    resolves_graph_C resolves_graph_S broadcastable_graph_C broadcastable_graph_S
  by (simp add: graph_C_def graph_S_def tunnel_node_def identity_tunnel_def CALL_MODULE_def
      torch_all_eq_examples)

text \<open>
  The claim as it was stated fails on \<open>graph_N\<close>: without force the finder does not
  return there, because comparing the two tensors of the second tunnel raises.
\<close>

theorem remover_find_modes_counterexample:
  "resolves graph_N \<and> tunnel_node graph_N 3 \<and>
   fst (EpsTunnelRemover_find (EpsTunnelRemover_init False) graph_N) = Inl RuntimeError"
  by (simp add: remover_find_run [OF resolves_graph_N] EpsTunnelRemover_init_def
      not_broadcastable_graph_N resolves_graph_N)
     (simp add: graph_N_def tunnel_node_def CALL_MODULE_def)

subsection \<open>Validation in the constructor of the activation\<close>

text \<open>
  Claim C8, as amended. For all arguments, and whatever \<^verbatim>\<open>str.lower\<close> does, the
  constructor of \<^verbatim>\<open>PACTUnsignedAct\<close> raises exactly when the lower-cased
  \<^verbatim>\<open>act_kind\<close> is none of relu, relu6 and leaky_relu or the lower-cased
  \<^verbatim>\<open>init_clip\<close> is none of max, std and const: the constructor lower-cases both
  arguments before it checks them. An object it returns holds the lower-cased values,
  both valid, so that \<^verbatim>\<open>forward\<close>, which checks nothing, always finds the activation
  its kind names.
\<close>

theorem init_validates:
  "((\<exists>e. PACTUnsignedAct_init lower n ic lc ak lk ns = Inl e) =
      (lower ak \<notin> set valid_act_kinds \<or> lower ic \<notin> set valid_init_clips)) \<and>
   (\<forall>m. PACTUnsignedAct_init lower n ic lc ak lk ns = Inr m \<longrightarrow>
      act_kind m = lower ak \<and> init_clip m = lower ic \<and>
      act_kind m \<in> set valid_act_kinds \<and> init_clip m \<in> set valid_init_clips \<and>
      forward_path m \<in> {StatRelu, StatRelu6, StatLeakyRelu lk})"
proof (cases "lower ak \<in> set valid_act_kinds \<and> lower ic \<in> set valid_init_clips")
  case True
  then have ok: "PACTUnsignedAct_init lower n ic lc ak lk ns =
     Inr \<lparr>n_levels = n, clip_hi = vec [1], clip_hi_requires_grad = lc,
          act_kind = lower ak, init_clip = lower ic, nb_std = ns,
          leaky = lk, started = False,
          max_stat = vec [0], min_stat = vec [0],
          running_mean = vec [0], running_var = vec [1]\<rparr>"
    by (intro init_ok) simp_all
  have "lower ak = ''relu'' \<or> lower ak = ''relu6'' \<or> lower ak = ''leaky_relu''"
    using True by (simp add: valid_act_kinds_def)
  then show ?thesis
    using True ok by (auto simp add: forward_path_def)
next
  case False
  then have "\<exists>e. PACTUnsignedAct_init lower n ic lc ak lk ns = Inl e"
    using init_fail [of lower ak ic n lc lk ns] by auto
  then show ?thesis using False by auto
qed

theorem init_validates_witness:
  "PACTUnsignedAct_init ascii_lower 256 ''max'' True ''ReLU'' (1 / 10) 3 =
     Inr \<lparr>n_levels = 256, clip_hi = vec [1], clip_hi_requires_grad = True,
          act_kind = ''relu'', init_clip = ''max'', nb_std = 3,
          leaky = 1 / 10, started = False,
          max_stat = vec [0], min_stat = vec [0],
          running_mean = vec [0], running_var = vec [1]\<rparr> \<and>
   forward_path \<lparr>n_levels = 256, clip_hi = vec [1], clip_hi_requires_grad = True,
          act_kind = ''relu'', init_clip = ''max'', nb_std = 3,
          leaky = 1 / 10, started = False,
          max_stat = vec [0], min_stat = vec [0],
          running_mean = vec [0], running_var = vec [1]\<rparr> = StatRelu \<and>
   (\<exists>e. PACTUnsignedAct_init ascii_lower 256 ''max'' True ''gelu'' (1 / 10) 3 = Inl e)"
proof -
  have ok: "PACTUnsignedAct_init ascii_lower 256 ''max'' True ''ReLU'' (1 / 10) 3 =
     Inr \<lparr>n_levels = 256, clip_hi = vec [1], clip_hi_requires_grad = True,
          act_kind = ''relu'', init_clip = ''max'', nb_std = 3,
          leaky = 1 / 10, started = False,
          max_stat = vec [0], min_stat = vec [0],
          running_mean = vec [0], running_var = vec [1]\<rparr>"
    by (simp add: init_ok ascii_lower_examples valid_act_kinds_def valid_init_clips_def)
  have "ascii_lower ''gelu'' \<notin> set valid_act_kinds"
    by (simp add: ascii_lower_examples valid_act_kinds_def)
  then have bad: "\<exists>e. PACTUnsignedAct_init ascii_lower 256 ''max'' True ''gelu'' (1 / 10) 3 = Inl e"
    using init_validates [of ascii_lower 256 "''max''" True "''gelu''" "1 / 10" 3] by blast
  have "forward_path \<lparr>n_levels = 256, clip_hi = vec [1], clip_hi_requires_grad = True,
          act_kind = ''relu'', init_clip = ''max'', nb_std = 3,
          leaky = 1 / 10, started = False,
          max_stat = vec [0], min_stat = vec [0],
          running_mean = vec [0], running_var = vec [1]\<rparr> = StatRelu"
    by (simp add: forward_path_def)
  then show ?thesis using ok bad by simp
qed

text \<open>
  The claim as it was stated normalises \<^verbatim>\<open>act_kind\<close> only. It fails for the argument
  \<^verbatim>\<open>init_clip = 'MAX'\<close>: this string is outside the three valid values, and the
  constructor accepts it, storing \<^verbatim>\<open>'max'\<close>.
\<close>

theorem init_validates_counterexample:
  "''MAX'' \<notin> set valid_init_clips \<and>
   PACTUnsignedAct_init ascii_lower 256 ''MAX'' True ''relu'' (1 / 10) 3 =
     Inr \<lparr>n_levels = 256, clip_hi = vec [1], clip_hi_requires_grad = True,
          act_kind = ''relu'', init_clip = ''max'', nb_std = 3,
          leaky = 1 / 10, started = False,
          max_stat = vec [0], min_stat = vec [0],
          running_mean = vec [0], running_var = vec [1]\<rparr>"
  by (simp add: init_ok ascii_lower_examples valid_act_kinds_def valid_init_clips_def)

subsection \<open>The finder only reads\<close>

text \<open>
  Claim C9. \<^verbatim>\<open>EpsTunnelRemoverFinder.find\<close> leaves the graph exactly as it found it
  (nodes, arguments and submodules with their tensors), whether it returns or raises, and
  a second call on the graph the first call left has the same outcome.
\<close>

theorem find_is_pure:
  "snd (EpsTunnelRemoverFinder_find g) = g \<and>
   EpsTunnelRemoverFinder_find (snd (EpsTunnelRemoverFinder_find g)) =
     EpsTunnelRemoverFinder_find g"
  by (simp add: find_frame)

subsection \<open>Tunnels with several inputs\<close>

text \<open>
  Claim C10, as amended. On a graph that has a tunnel node whose number of input nodes is
  not one, \<^verbatim>\<open>EpsTunnelRemoverFinder.find\<close> raises instead of skipping that node. When
  the call-module targets all name a submodule and the tensors of every tunnel can be
  broadcast together, it raises the assertion error exactly on those graphs, and it
  returns exactly when every tunnel node has one input node. When the tensors of some
  tunnel cannot be broadcast together, the error is that of the comparison, which the
  identity filter raises before any assertion is tried.
\<close>

theorem find_asserts_single_input:
  "((\<exists>n\<in>set (nodes g). tunnel_node g n \<and> length (all_input_nodes g n) \<noteq> 1) \<longrightarrow>
      (\<exists>e. fst (EpsTunnelRemoverFinder_find g) = Inl e)) \<and>
   (resolves g \<longrightarrow> broadcastable g \<longrightarrow>
      (fst (EpsTunnelRemoverFinder_find g) = Inl (AssertionError [])) =
        (\<exists>n\<in>set (nodes g). tunnel_node g n \<and> length (all_input_nodes g n) \<noteq> 1) \<and>
      (\<exists>aps. fst (EpsTunnelRemoverFinder_find g) = Inr aps) =
        (\<forall>n\<in>set (nodes g). tunnel_node g n \<longrightarrow> length (all_input_nodes g n) = 1)) \<and>
   (resolves g \<longrightarrow> \<not> broadcastable g \<longrightarrow>
      fst (EpsTunnelRemoverFinder_find g) = Inl RuntimeError)"
proof (cases "resolves g")
  case res: True
  show ?thesis
  proof (cases "broadcastable g")
    case True
    then show ?thesis using res find_run [OF res True] by auto
  next
    case False
    then show ?thesis using res by (simp add: find_run_unbroadcastable)
  qed
next
  case False
  then show ?thesis by (simp add: find_run_unresolved)
qed

theorem find_asserts_single_input_witness:
  "resolves graph_D \<and> broadcastable graph_D \<and> resolves graph_B \<and> broadcastable graph_B \<and>
   fst (EpsTunnelRemoverFinder_find graph_D) = Inl (AssertionError []) \<and>
   (\<exists>aps. fst (EpsTunnelRemoverFinder_find graph_B) = Inr aps)"
proof -
  have d: "\<exists>n\<in>set (nodes graph_D). tunnel_node graph_D n \<and>
             length (all_input_nodes graph_D n) \<noteq> 1"
    by (rule bexI [of _ 2])
       (simp_all add: graph_D_def tunnel_node_def all_input_nodes_def CALL_MODULE_def)
  have b: "\<forall>n\<in>set (nodes graph_B). tunnel_node graph_B n \<longrightarrow>
             length (all_input_nodes graph_B n) = 1"
    using single_input_graph_B by (simp add: single_input_def list_all_iff)
  show ?thesis
    using find_asserts_single_input [of graph_D] find_asserts_single_input [of graph_B]
      d b resolves_graph_D resolves_graph_B broadcastable_graph_D broadcastable_graph_B
    by blast
qed

text \<open>
  The claim as it was stated fails on \<open>graph_N\<close>: its first tunnel has two input nodes,
  and the finder raises the error of the comparison at the second tunnel, not an
  assertion error.
\<close>

theorem find_asserts_single_input_counterexample:
  "2 \<in> set (nodes graph_N) \<and> tunnel_node graph_N 2 \<and>
   length (all_input_nodes graph_N 2) = 2 \<and>
   fst (EpsTunnelRemoverFinder_find graph_N) = Inl RuntimeError"
  by (simp add: find_run_unbroadcastable [OF resolves_graph_N not_broadcastable_graph_N])
     (simp add: graph_N_def tunnel_node_def all_input_nodes_def CALL_MODULE_def)

end
